theory Spec2Isabelle
  imports Complex_Main
begin

section \<open>Errors raised by the program\<close>

text \<open>
  The Python exceptions that the modelled functions of \<^verbatim>\<open>lineprof.py\<close> can raise:
  an index out of range on a list, a missing key of a plain dictionary, and a
  float division by zero.
\<close>

datatype error = IndexError | KeyError | ZeroDivisionError

section \<open>The instrumenter: \<^verbatim>\<open>annotate\<close>\<close>

subsection \<open>Statement nodes\<close>

text \<open>
  A statement node of Python's \<^verbatim>\<open>ast\<close> module, with the features \<^verbatim>\<open>annotate\<close>
  inspects: the class of the node, its \<^verbatim>\<open>lineno\<close> and the statement lists it owns
  (\<^verbatim>\<open>body\<close>, \<^verbatim>\<open>orelse\<close>, \<^verbatim>\<open>finalbody\<close>, and the \<^verbatim>\<open>body\<close> of every
  handler of a \<^verbatim>\<open>Try\<close>). Every other field (targets, tests, names, values) is a
  payload the function never looks at, kept as a number; a handler is the pair of its
  payload and its body, and so is a case of a \<^verbatim>\<open>Match\<close>.

  The first sixteen constructors are the classes that the \<^verbatim>\<open>isinstance\<close> tests of
  \<^verbatim>\<open>annotate\<close> name. The others are classes that no test names: the annotated
  assignment \<^verbatim>\<open>AnnAssign\<close> (\<^verbatim>\<open>x: int = 1\<close>), the statements with blocks
  \<^verbatim>\<open>AsyncFunctionDef\<close>, \<^verbatim>\<open>AsyncFor\<close>, \<^verbatim>\<open>AsyncWith\<close>, \<^verbatim>\<open>Match\<close> and
  \<^verbatim>\<open>TryStar\<close> (in the versions of Python that have them), and \<open>OtherStmt\<close> for
  every remaining class, none of which owns a statement list (\<^verbatim>\<open>Pass\<close>,
  \<^verbatim>\<open>Raise\<close>, \<^verbatim>\<open>Assert\<close>, \<^verbatim>\<open>Global\<close>, \<^verbatim>\<open>Nonlocal\<close>).

  The value of an expression statement is either a call \<^verbatim>\<open>_lineprof.h(n)\<close> of one of
  the three hooks, or any other expression.
\<close>

datatype hook = LinePre | LinePost | ExitPre

datatype expr = HookCall hook nat | OtherExpr nat

datatype stmt =
    Expr nat expr
  | Assign nat nat
  | Delete nat nat
  | AugAssign nat nat
  | Import nat nat
  | ImportFrom nat nat
  | Return nat nat
  | Break nat
  | Continue nat
  | If nat nat "stmt list" "stmt list"
  | While nat nat "stmt list" "stmt list"
  | For nat nat "stmt list" "stmt list"
  | Try nat "stmt list" "(nat \<times> stmt list) list" "stmt list" "stmt list"
  | FunctionDef nat nat "stmt list"
  | ClassDef nat nat "stmt list"
  | With nat nat "stmt list"
  | AnnAssign nat nat
  | AsyncFunctionDef nat nat "stmt list"
  | AsyncFor nat nat "stmt list" "stmt list"
  | AsyncWith nat nat "stmt list"
  | Match nat nat "(nat \<times> stmt list) list"
  | TryStar nat "stmt list" "(nat \<times> stmt list) list" "stmt list" "stmt list"
  | OtherStmt nat nat

fun node_lineno :: "stmt \<Rightarrow> nat" where
  "node_lineno (Expr l _) = l"
| "node_lineno (Assign l _) = l"
| "node_lineno (Delete l _) = l"
| "node_lineno (AugAssign l _) = l"
| "node_lineno (Import l _) = l"
| "node_lineno (ImportFrom l _) = l"
| "node_lineno (Return l _) = l"
| "node_lineno (Break l) = l"
| "node_lineno (Continue l) = l"
| "node_lineno (If l _ _ _) = l"
| "node_lineno (While l _ _ _) = l"
| "node_lineno (For l _ _ _) = l"
| "node_lineno (Try l _ _ _ _) = l"
| "node_lineno (FunctionDef l _ _) = l"
| "node_lineno (ClassDef l _ _) = l"
| "node_lineno (With l _ _) = l"
| "node_lineno (AnnAssign l _) = l"
| "node_lineno (AsyncFunctionDef l _ _) = l"
| "node_lineno (AsyncFor l _ _ _) = l"
| "node_lineno (AsyncWith l _ _) = l"
| "node_lineno (Match l _ _) = l"
| "node_lineno (TryStar l _ _ _ _) = l"
| "node_lineno (OtherStmt l _) = l"

subsection \<open>Hooks and list insertion\<close>

text \<open>
  \<^verbatim>\<open>ast.parse(f'_lineprof.line_pre({node.lineno})').body[0]\<close> parses a one-line
  source text: the result is a fresh expression statement on line 1 whose value is
  the call of the hook with the statement's line number as its argument.
\<close>

definition parse_hook :: "hook \<Rightarrow> nat \<Rightarrow> stmt" where
  "parse_hook h n = Expr 1 (HookCall h n)"

text \<open>
  \<^verbatim>\<open>body.insert(i, x)\<close> for \<open>i \<ge> 0\<close>: the element goes before position \<open>i\<close>,
  and to the end of the list when \<open>i\<close> is beyond it.
\<close>

definition list_insert :: "nat \<Rightarrow> 'a \<Rightarrow> 'a list \<Rightarrow> 'a list" where
  "list_insert i x xs = take i xs @ x # drop i xs"

subsection \<open>The classes tested by \<^verbatim>\<open>isinstance\<close>\<close>

text \<open>
  \<^verbatim>\<open>isinstance(node, (ast.Expr, ast.Assign, ast.Delete, ast.AugAssign, ast.Import,
  ast.ImportFrom))\<close> and \<^verbatim>\<open>isinstance(node, (ast.Return, ast.Break, ast.Continue))\<close>.
\<close>

fun is_measurable :: "stmt \<Rightarrow> bool" where
  "is_measurable (Expr _ _) = True"
| "is_measurable (Assign _ _) = True"
| "is_measurable (Delete _ _) = True"
| "is_measurable (AugAssign _ _) = True"
| "is_measurable (Import _ _) = True"
| "is_measurable (ImportFrom _ _) = True"
| "is_measurable _ = False"

fun is_control_transfer :: "stmt \<Rightarrow> bool" where
  "is_control_transfer (Return _ _) = True"
| "is_control_transfer (Break _) = True"
| "is_control_transfer (Continue _) = True"
| "is_control_transfer _ = False"

text \<open>
  The remaining tests of the chain: \<^verbatim>\<open>isinstance(node, (ast.If, ast.While, ast.For))\<close>,
  \<^verbatim>\<open>isinstance(node, ast.Try)\<close> and
  \<^verbatim>\<open>isinstance(node, (ast.FunctionDef, ast.ClassDef, ast.With))\<close>. A node that passes
  none of the five tests reaches the \<^verbatim>\<open>else\<close> branch.
\<close>

fun is_structured :: "stmt \<Rightarrow> bool" where
  "is_structured (If _ _ _ _) = True"
| "is_structured (While _ _ _ _) = True"
| "is_structured (For _ _ _ _) = True"
| "is_structured (Try _ _ _ _ _) = True"
| "is_structured (FunctionDef _ _ _) = True"
| "is_structured (ClassDef _ _ _) = True"
| "is_structured (With _ _ _) = True"
| "is_structured _ = False"

subsection \<open>The function \<^verbatim>\<open>annotate\<close>\<close>

text \<open>
  \<^verbatim>\<open>annotate(body)\<close> changes the list \<^verbatim>\<open>body\<close> in place and returns nothing; the
  model returns the final contents of the list, or the exception raised.
  \<open>annotate_loop i n offset body\<close> is the \<^verbatim>\<open>for\<close> loop from iteration \<open>i\<close> on:
  \<open>n\<close> is \<^verbatim>\<open>len(body)\<close> as \<^verbatim>\<open>range\<close> read it once before the first iteration,
  \<open>offset\<close> the local variable, \<open>body\<close> the current contents of the list.
  \<^verbatim>\<open>body[idx]\<close> raises \<^verbatim>\<open>IndexError\<close> beyond the end of the list. A recursive call
  on a list owned by the node changes that list in place; since \<^verbatim>\<open>body[idx]\<close> is
  that very node, the model stores the node with its new lists back at \<open>idx\<close>.
  The parser builds a tree, so no two nodes share a list. The warning printed for
  a node of an unrecognised class is output only and is left out.
  \<open>annotate_handlers\<close> is the loop \<^verbatim>\<open>for handler in node.handlers\<close>.
  Python's limit on the depth of recursion is not modelled.
\<close>

text \<open>Two facts about sizes, for the termination proof below.\<close>

lemma size_drop_nth:
  "idx < length body \<Longrightarrow>
   size_list size (drop idx body) = Suc (size (body ! idx) + size_list size (drop (Suc idx) body))"
  by (simp add: Cons_nth_drop_Suc [symmetric])

lemma nth_eq_symD: "(c::stmt) = body ! k \<Longrightarrow> body ! k = c"
  by simp

function annotate :: "stmt list \<Rightarrow> error + stmt list"
  and annotate_loop :: "nat \<Rightarrow> nat \<Rightarrow> nat \<Rightarrow> stmt list \<Rightarrow> error + stmt list"
  and annotate_handlers :: "(nat \<times> stmt list) list \<Rightarrow> error + (nat \<times> stmt list) list"
where
  "annotate body = annotate_loop 0 (length body) 0 body"
| "annotate_loop i n offset body =
    (if i < n then
       (let idx = i + offset in
        if idx < length body then
          (let node = body ! idx in
           if is_measurable node then
             annotate_loop (i + 1) n (offset + 2)
               (list_insert (idx + 2) (parse_hook LinePost (node_lineno node))
                  (list_insert idx (parse_hook LinePre (node_lineno node)) body))
           else if is_control_transfer node then
             annotate_loop (i + 1) n (offset + 1)
               (list_insert idx (parse_hook ExitPre (node_lineno node)) body)
           else
             (case node of
                If l t b e \<Rightarrow>
                  (case annotate b of Inl err \<Rightarrow> Inl err | Inr b' \<Rightarrow>
                   (case annotate e of Inl err \<Rightarrow> Inl err | Inr e' \<Rightarrow>
                      annotate_loop (i + 1) n offset (body[idx := If l t b' e'])))
              | While l t b e \<Rightarrow>
                  (case annotate b of Inl err \<Rightarrow> Inl err | Inr b' \<Rightarrow>
                   (case annotate e of Inl err \<Rightarrow> Inl err | Inr e' \<Rightarrow>
                      annotate_loop (i + 1) n offset (body[idx := While l t b' e'])))
              | For l t b e \<Rightarrow>
                  (case annotate b of Inl err \<Rightarrow> Inl err | Inr b' \<Rightarrow>
                   (case annotate e of Inl err \<Rightarrow> Inl err | Inr e' \<Rightarrow>
                      annotate_loop (i + 1) n offset (body[idx := For l t b' e'])))
              | Try l b hs e f \<Rightarrow>
                  (case annotate b of Inl err \<Rightarrow> Inl err | Inr b' \<Rightarrow>
                   (case annotate e of Inl err \<Rightarrow> Inl err | Inr e' \<Rightarrow>
                   (case annotate_handlers hs of Inl err \<Rightarrow> Inl err | Inr hs' \<Rightarrow>
                   (case annotate f of Inl err \<Rightarrow> Inl err | Inr f' \<Rightarrow>
                      annotate_loop (i + 1) n offset (body[idx := Try l b' hs' e' f'])))))
              | FunctionDef l t b \<Rightarrow>
                  (case annotate b of Inl err \<Rightarrow> Inl err | Inr b' \<Rightarrow>
                      annotate_loop (i + 1) n offset (body[idx := FunctionDef l t b']))
              | ClassDef l t b \<Rightarrow>
                  (case annotate b of Inl err \<Rightarrow> Inl err | Inr b' \<Rightarrow>
                      annotate_loop (i + 1) n offset (body[idx := ClassDef l t b']))
              | With l t b \<Rightarrow>
                  (case annotate b of Inl err \<Rightarrow> Inl err | Inr b' \<Rightarrow>
                      annotate_loop (i + 1) n offset (body[idx := With l t b']))
              | _ \<Rightarrow> annotate_loop (i + 1) n offset body))
        else Inl IndexError)
     else Inr body)"
| "annotate_handlers [] = Inr []"
| "annotate_handlers (h # hs) =
    (case annotate (snd h) of Inl err \<Rightarrow> Inl err | Inr b' \<Rightarrow>
     (case annotate_handlers hs of Inl err \<Rightarrow> Inl err | Inr hs' \<Rightarrow> Inr ((fst h, b') # hs')))"
  by pat_completeness auto

termination
  apply (relation "measure (\<lambda>x. case x of
      Inl body \<Rightarrow> Suc (size_list size body)
    | Inr (Inl (i, n, offset, body)) \<Rightarrow> size_list size (drop (i + offset) body)
    | Inr (Inr hs) \<Rightarrow> Suc (size_list (size_prod (\<lambda>x. 0) (size_list size)) hs))")
  apply (simp_all add: list_insert_def size_drop_nth)
  apply (auto dest!: nth_eq_symD)
  done

subsection \<open>The instrumented block, as the specification describes it\<close>

text \<open>
  Following the specification's classification rules, not the code: a measurable
  statement gets a begin hook immediately before and an end hook immediately after;
  a control-transfer statement gets a mark hook immediately before; a statement
  with nested blocks (conditional, loops, exception handling, definitions with a
  body) is not wrapped itself and each of its nested blocks is instrumented
  independently; a statement of any other kind is left as it is. A block is
  instrumented statement by statement, in order.
\<close>

fun instrument_stmt :: "stmt \<Rightarrow> stmt list" where
  "instrument_stmt (If l t b e) =
     [If l t (concat (map instrument_stmt b)) (concat (map instrument_stmt e))]"
| "instrument_stmt (While l t b e) =
     [While l t (concat (map instrument_stmt b)) (concat (map instrument_stmt e))]"
| "instrument_stmt (For l t b e) =
     [For l t (concat (map instrument_stmt b)) (concat (map instrument_stmt e))]"
| "instrument_stmt (Try l b hs e f) =
     [Try l (concat (map instrument_stmt b))
        (map (\<lambda>h. (fst h, concat (map instrument_stmt (snd h)))) hs)
        (concat (map instrument_stmt e)) (concat (map instrument_stmt f))]"
| "instrument_stmt (FunctionDef l t b) = [FunctionDef l t (concat (map instrument_stmt b))]"
| "instrument_stmt (ClassDef l t b) = [ClassDef l t (concat (map instrument_stmt b))]"
| "instrument_stmt (With l t b) = [With l t (concat (map instrument_stmt b))]"
| "instrument_stmt s =
     (if is_measurable s then [parse_hook LinePre (node_lineno s), s, parse_hook LinePost (node_lineno s)]
      else if is_control_transfer s then [parse_hook ExitPre (node_lineno s), s]
      else [s])"

definition instrument_block :: "stmt list \<Rightarrow> stmt list" where
  "instrument_block body = concat (map instrument_stmt body)"

section \<open>The accumulator \<^verbatim>\<open>LineProf\<close> and the \<^verbatim>\<open>Reporter\<close>\<close>

subsection \<open>Objects and the store of dictionaries\<close>

text \<open>
  Times are Python floats, the readings of \<^verbatim>\<open>time.monotonic()\<close>. Every float is
  a real number and is modelled as one. The sums and differences of the accumulator
  are taken without rounding; the quotients and products of \<^verbatim>\<open>draw_thread\<close>,
  which decide what is displayed, are the machine's (see \<open>float_ops\<close> below). A
  reading of the clock is an argument of the function that takes it.

  \<^verbatim>\<open>line_time\<close> and \<^verbatim>\<open>line_evals\<close> are \<^verbatim>\<open>collections.defaultdict\<close> objects.
  \<^verbatim>\<open>LineProf.report\<close> hands the objects themselves to the reporter, which keeps
  them in \<^verbatim>\<open>self.data\<close>, so the same dictionary can be reached from both
  objects: a field that holds such a dictionary holds an address, and the
  dictionaries live in a store (\<open>floats\<close> for \<^verbatim>\<open>defaultdict(float)\<close>, \<open>ints\<close> for
  \<^verbatim>\<open>defaultdict(int)\<close>, \<open>fresh\<close> the next unused address). \<^verbatim>\<open>begin_time\<close> is a
  plain \<^verbatim>\<open>dict\<close> that never leaves the \<^verbatim>\<open>LineProf\<close> object and is a map.

  Of the reporter the fields read or written by \<^verbatim>\<open>report\<close>, \<^verbatim>\<open>input_thread\<close> and
  \<^verbatim>\<open>draw_thread\<close> are kept; the tree, the keyword table and the curses window are
  left out.
\<close>

type_synonym addr = nat

record LineProf =
  begin_time :: "nat \<rightharpoonup> real"
  line_time :: addr
  line_evals :: addr
  last_report :: real

record Reporter =
  lines :: "string list"
  data :: "real \<times> addr \<times> addr"
  dirty :: bool
  scroll :: int
  height :: int

record world =
  prof :: LineProf
  rep :: Reporter
  floats :: "addr \<Rightarrow> (nat \<rightharpoonup> real)"
  ints :: "addr \<Rightarrow> (nat \<rightharpoonup> int)"
  fresh :: addr

text \<open>
  \<open>dd_get dflt d k\<close> is the read \<^verbatim>\<open>d[k]\<close> of a \<^verbatim>\<open>defaultdict\<close> whose factory
  returns \<open>dflt\<close>: a missing key is first stored with the default, so the read
  returns the value and the dictionary it leaves. \<open>lookup0\<close> is the value such a
  read returns, without the effect.
\<close>

definition dd_get :: "'v \<Rightarrow> (nat \<rightharpoonup> 'v) \<Rightarrow> nat \<Rightarrow> 'v \<times> (nat \<rightharpoonup> 'v)" where
  "dd_get dflt d k = (case d k of Some v \<Rightarrow> (v, d) | None \<Rightarrow> (dflt, d(k \<mapsto> dflt)))"

definition lookup0 :: "(nat \<rightharpoonup> 'v::zero) \<Rightarrow> nat \<Rightarrow> 'v" where
  "lookup0 d k = (case d k of Some v \<Rightarrow> v | None \<Rightarrow> 0)"

subsection \<open>The methods of \<^verbatim>\<open>LineProf\<close>\<close>

text \<open>
  \<^verbatim>\<open>clear\<close> binds two new empty dictionaries to \<^verbatim>\<open>line_time\<close> and
  \<^verbatim>\<open>line_evals\<close> and reads the clock (\<open>now\<close>) into \<^verbatim>\<open>last_report\<close>.
\<close>

definition clear :: "real \<Rightarrow> world \<Rightarrow> world" where
  "clear now w =
     (let a = fresh w in
      w\<lparr>floats := (floats w)(a := Map.empty),
        ints := (ints w)(a + 1 := Map.empty),
        fresh := a + 2,
        prof := (prof w)\<lparr>line_time := a, line_evals := a + 1, last_report := now\<rparr>\<rparr>)"

definition line_pre :: "nat \<Rightarrow> real \<Rightarrow> world \<Rightarrow> world" where
  "line_pre lineno now w =
     w\<lparr>prof := (prof w)\<lparr>begin_time := (begin_time (prof w))(lineno \<mapsto> now)\<rparr>\<rparr>"

text \<open>\<^verbatim>\<open>self.line_evals[lineno] += 1\<close>: a read with default, then a store.\<close>

definition exit_pre :: "nat \<Rightarrow> world \<Rightarrow> world" where
  "exit_pre lineno w =
     (let a = line_evals (prof w);
          (c, d) = dd_get 0 (ints w a) lineno
      in w\<lparr>ints := (ints w)(a := d(lineno \<mapsto> c + 1))\<rparr>)"

text \<open>\<^verbatim>\<open>Reporter.invalidate\<close> and \<^verbatim>\<open>Reporter.report\<close>.\<close>

definition invalidate :: "world \<Rightarrow> world" where
  "invalidate w = w\<lparr>rep := (rep w)\<lparr>dirty := True\<rparr>\<rparr>"

definition Reporter_report :: "real \<Rightarrow> addr \<Rightarrow> addr \<Rightarrow> world \<Rightarrow> world" where
  "Reporter_report interval total_time evals w =
     invalidate (w\<lparr>rep := (rep w)\<lparr>data := (interval, total_time, evals)\<rparr>\<rparr>)"

text \<open>
  \<^verbatim>\<open>LineProf.report(interval=None)\<close>: \<open>now\<close> is the reading of the clock taken
  when no interval is given, \<open>now'\<close> the reading taken by \<^verbatim>\<open>clear\<close>.
\<close>

definition report :: "real option \<Rightarrow> real \<Rightarrow> real \<Rightarrow> world \<Rightarrow> world" where
  "report interval now now' w =
     (let interval' = (case interval of None \<Rightarrow> now - last_report (prof w) | Some iv \<Rightarrow> iv)
      in clear now'
           (Reporter_report interval' (line_time (prof w)) (line_evals (prof w)) w))"

text \<open>
  \<^verbatim>\<open>line_post\<close>. In \<^verbatim>\<open>self.line_time[lineno] += now - self.begin_time[lineno]\<close> the
  target \<^verbatim>\<open>self.line_time[lineno]\<close> is read first (which stores the default \<open>0.0\<close>
  for a missing key), then the right-hand side is evaluated, where a missing key of
  \<^verbatim>\<open>begin_time\<close> raises \<^verbatim>\<open>KeyError\<close>. The result is \<open>Inl\<close> of the exception and
  the state it leaves, or \<open>Inr\<close> of the state after the call. \<open>now\<close> is the
  reading of the clock at the start of the call, \<open>now'\<close> the one \<^verbatim>\<open>clear\<close> takes
  when the call flushes.
\<close>

definition line_post :: "nat \<Rightarrow> real \<Rightarrow> real \<Rightarrow> world \<Rightarrow> (error \<times> world) + world" where
  "line_post lineno now now' w =
     (let a = line_time (prof w);
          (cur, d) = dd_get 0 (floats w a) lineno;
          w1 = w\<lparr>floats := (floats w)(a := d)\<rparr>
      in case begin_time (prof w) lineno of
           None \<Rightarrow> Inl (KeyError, w1)
         | Some b \<Rightarrow>
             (let w2 = w1\<lparr>floats := (floats w1)(a := d(lineno \<mapsto> cur + (now - b)))\<rparr>;
                  ae = line_evals (prof w2);
                  (c, e) = dd_get 0 (ints w2 ae) lineno;
                  w3 = w2\<lparr>ints := (ints w2)(ae := e(lineno \<mapsto> c + 1))\<rparr>;
                  interval = now - last_report (prof w3)
              in if interval > 1 then Inr (report (Some interval) now now' w3) else Inr w3))"

subsection \<open>The threads of the \<^verbatim>\<open>Reporter\<close>\<close>

text \<open>
  What \<^verbatim>\<open>draw_thread\<close> writes for one visible line: the row of the screen, the two
  text fields, the colour pair of the line (\<open>None\<close> for no attribute) and the line.
  \<open>Fixed w p x s\<close> stands for the formatted text \<^verbatim>\<open>f'{x:w.pf}'\<close> followed by \<open>s\<close>;
  \<open>Blank\<close> for the empty string. The keyword overlays and the curses calls are
  left out.
\<close>

datatype field = Blank | Fixed nat nat real string

record row =
  row_y :: int
  row_percent :: field
  row_freq :: field
  row_pair :: "nat option"
  row_line :: string

text \<open>
  The division and the multiplication of \<^verbatim>\<open>draw_thread\<close> are operations on
  floats, which round: \<open>fdiv fl x y\<close> and \<open>fmul fl x y\<close> are the floats that
  \<^verbatim>\<open>x / y\<close> and \<^verbatim>\<open>x * y\<close> evaluate to (an integer operand is converted first).
  The two operations are a parameter \<open>fl\<close> of the model, and what is proved holds
  for every choice of them, so for the machine's. \<open>real_ops\<close> are the operations
  without rounding, which agree with the machine's wherever the exact result is a
  float; they serve in the concrete runs.
\<close>

record float_ops =
  fdiv :: "real \<Rightarrow> real \<Rightarrow> real"
  fmul :: "real \<Rightarrow> real \<Rightarrow> real"

definition real_ops :: float_ops where
  "real_ops = \<lparr>fdiv = (\<lambda>x y. x / y), fmul = (\<lambda>x y. x * y)\<rparr>"

text \<open>
  The three \<^verbatim>\<open>if\<close> chains of the loop body of \<^verbatim>\<open>draw_thread\<close>. The comparisons
  of floats are exact. The literal \<^verbatim>\<open>0.1\<close> is the float next above \<open>1 / 10\<close>, so a
  float is below the one exactly when it is below the other.
\<close>

definition percent_text :: "real \<Rightarrow> field" where
  "percent_text part = (if part < 1 / 10 then Blank else Fixed 4 1 part ''%'')"

definition freq_text :: "float_ops \<Rightarrow> real \<Rightarrow> field" where
  "freq_text fl fr =
     (if fr = 0 then Blank
      else if fr < 1000 then Fixed 5 1 fr ''Hz''
      else if fr < 1000000 then Fixed 5 1 (fdiv fl fr 1000) ''k''
      else Fixed 5 1 (fdiv fl fr 1000000) ''M'')"

definition line_pair :: "real \<Rightarrow> nat option" where
  "line_pair part = (if part > 20 then Some 2 else if part > 5 then Some 4 else None)"

text \<open>
  The loop \<^verbatim>\<open>for lineno, line in enumerate(self.lines, 1)\<close> of \<^verbatim>\<open>draw_thread\<close>, from
  line number \<open>lineno\<close> on; \<open>h\<close> is the height the terminal reported,
  \<open>interval\<close>, \<open>total_time\<close> and \<open>evals\<close> the components of \<^verbatim>\<open>self.data\<close>. The
  reads \<^verbatim>\<open>total_time[lineno]\<close> and \<^verbatim>\<open>evals[lineno]\<close> are reads of a
  \<^verbatim>\<open>defaultdict\<close>; the division raises \<^verbatim>\<open>ZeroDivisionError\<close> for an interval of
  zero. \<open>draw_thread h\<close> is one iteration of the thread's loop, taken as one step.
\<close>

fun draw_lines ::
  "float_ops \<Rightarrow> nat \<Rightarrow> string list \<Rightarrow> int \<Rightarrow> real \<Rightarrow> addr \<Rightarrow> addr \<Rightarrow> world \<Rightarrow> (error \<times> world) + (row list \<times> world)"
where
  "draw_lines fl lineno [] h interval total_time evals w = Inr ([], w)"
| "draw_lines fl lineno (line # rest) h interval total_time evals w =
     (let screen_line = int lineno - scroll (rep w) in
      if \<not> (0 < screen_line \<and> screen_line < h) then
        draw_lines fl (lineno + 1) rest h interval total_time evals w
      else
        (let (t, d) = dd_get 0 (floats w total_time) lineno;
             w1 = w\<lparr>floats := (floats w)(total_time := d)\<rparr>
         in if interval = 0 then Inl (ZeroDivisionError, w1)
            else
              (let part = fmul fl (fdiv fl t interval) 100;
                   (c, e) = dd_get 0 (ints w1 evals) lineno;
                   w2 = w1\<lparr>ints := (ints w1)(evals := e)\<rparr>;
                   fr = fdiv fl (real_of_int c) interval;
                   r = \<lparr>row_y = screen_line, row_percent = percent_text part,
                        row_freq = freq_text fl fr, row_pair = line_pair part, row_line = line\<rparr>
               in case draw_lines fl (lineno + 1) rest h interval total_time evals w2 of
                    Inl x \<Rightarrow> Inl x
                  | Inr (rs, w') \<Rightarrow> Inr (r # rs, w'))))"

definition draw_thread :: "float_ops \<Rightarrow> int \<Rightarrow> world \<Rightarrow> (error \<times> world) + (row list \<times> world)" where
  "draw_thread fl h w =
     (let w0 = w\<lparr>rep := (rep w)\<lparr>height := h\<rparr>\<rparr>;
          (interval, total_time, evals) = data (rep w0)
      in case draw_lines fl 1 (lines (rep w0)) h interval total_time evals w0 of
           Inl x \<Rightarrow> Inl x
         | Inr (rs, w') \<Rightarrow> Inr (rs, w'\<lparr>rep := (rep w')\<lparr>dirty := False\<rparr>\<rparr>))"

text \<open>
  One iteration of the loop of \<^verbatim>\<open>input_thread\<close>, for the key \<open>c\<close> that
  \<^verbatim>\<open>getch\<close> returned: \<open>handle_key\<close> is the chain of tests of the key,
  \<open>clamp_scroll\<close> the two tests of \<^verbatim>\<open>self.scroll\<close> after it. The key \<^verbatim>\<open>q\<close> sends a
  signal that ends the process; that is not modelled.
\<close>

definition ord :: "char \<Rightarrow> int" where
  "ord c = of_char c"

definition handle_key :: "int \<Rightarrow> Reporter \<Rightarrow> Reporter" where
  "handle_key c r =
     (let r = (if c = ord CHR ''j'' then r\<lparr>scroll := scroll r + 1\<rparr> else r);
          r = (if c = ord CHR ''k'' then r\<lparr>scroll := scroll r - 1\<rparr> else r);
          r = (if c = ord CHR ''d'' then r\<lparr>scroll := scroll r + height r div 2\<rparr> else r);
          r = (if c = ord CHR ''u'' then r\<lparr>scroll := scroll r - height r div 2\<rparr> else r);
          r = (if c = ord CHR '' '' then r\<lparr>scroll := scroll r + height r\<rparr> else r)
      in r)"

definition clamp_scroll :: "Reporter \<Rightarrow> Reporter" where
  "clamp_scroll r =
     (let r = (if scroll r < 0 then r\<lparr>scroll := 0\<rparr> else r);
          r = (if scroll r > int (length (lines r)) - height r + 2
               then r\<lparr>scroll := int (length (lines r)) - height r + 2\<rparr> else r)
      in r)"

definition input_thread :: "int \<Rightarrow> world \<Rightarrow> world" where
  "input_thread c w = invalidate (w\<lparr>rep := clamp_scroll (handle_key c (rep w))\<rparr>)"

subsection \<open>Runs of the program\<close>

text \<open>
  The state after \<^verbatim>\<open>Reporter.__init__\<close> on a source text with the lines \<open>ls\<close> and
  \<^verbatim>\<open>LineProf.__init__\<close>, whose \<^verbatim>\<open>clear\<close> reads the clock as \<open>now\<close>. The two
  dictionaries of the reporter's first \<^verbatim>\<open>data\<close> are at the addresses 0 and 1; the
  second is a \<^verbatim>\<open>defaultdict(float)\<close> in the source, which is empty and only ever
  read, with default zero.
\<close>

definition init_world :: "string list \<Rightarrow> real \<Rightarrow> world" where
  "init_world ls now =
     clear now
       \<lparr>prof = \<lparr>begin_time = Map.empty, line_time = 0, line_evals = 0, last_report = 0\<rparr>,
        rep = \<lparr>lines = ls, data = (1, 0, 1), dirty = False, scroll = 0, height = 10\<rparr>,
        floats = (\<lambda>a. Map.empty), ints = (\<lambda>a. Map.empty), fresh = 2\<rparr>"

text \<open>
  What can happen next: the instrumented program calls one of the three hooks (with
  the readings of the clock the call takes), the input thread handles a key, or the
  draw thread redraws (with the height the terminal reports). The first argument
  of \<open>step\<close> and \<open>run\<close> is the float arithmetic, which only a redraw uses. The
  three threads
  share no lock; a hook call and an iteration of a thread's loop are each taken as
  one step, and the steps of the threads interleave. An exception raised in
  a hook may be caught by the profiled program, so a run goes on from the state
  the exception leaves. \<open>clock_ok t es\<close> says that the readings of the clock in
  \<open>es\<close> never decrease, starting from \<open>t\<close>, which is what
  \<^verbatim>\<open>time.monotonic()\<close> guarantees.
\<close>

datatype event =
    Call_line_pre nat real
  | Call_exit_pre nat
  | Call_line_post nat real real
  | Getch int
  | Redraw int

fun step :: "float_ops \<Rightarrow> event \<Rightarrow> world \<Rightarrow> (error \<times> world) + world" where
  "step fl (Call_line_pre l now) w = Inr (line_pre l now w)"
| "step fl (Call_exit_pre l) w = Inr (exit_pre l w)"
| "step fl (Call_line_post l now now') w = line_post l now now' w"
| "step fl (Getch c) w = Inr (input_thread c w)"
| "step fl (Redraw h) w =
     (case draw_thread fl h w of Inl x \<Rightarrow> Inl x | Inr (rs, w') \<Rightarrow> Inr w')"

definition world_after :: "(error \<times> world) + world \<Rightarrow> world" where
  "world_after r = (case r of Inl (e, w) \<Rightarrow> w | Inr w \<Rightarrow> w)"

fun run :: "float_ops \<Rightarrow> event list \<Rightarrow> world \<Rightarrow> world" where
  "run fl [] w = w"
| "run fl (e # es) w = run fl es (world_after (step fl e w))"

fun clock_ok :: "real \<Rightarrow> event list \<Rightarrow> bool" where
  "clock_ok t [] = True"
| "clock_ok t (Call_line_pre l now # es) = (t \<le> now \<and> clock_ok now es)"
| "clock_ok t (Call_line_post l now now' # es) = (t \<le> now \<and> now \<le> now' \<and> clock_ok now' es)"
| "clock_ok t (e # es) = clock_ok t es"

subsection \<open>Notions used in the proofs\<close>

text \<open>
  \<open>zero_ext m m'\<close>: the dictionary \<open>m'\<close> is \<open>m\<close> with entries of value zero added
  for keys that \<open>m\<close> lacks, which is all that reading a \<^verbatim>\<open>defaultdict\<close> can do.
\<close>

definition zero_ext :: "(nat \<rightharpoonup> 'v::zero) \<Rightarrow> (nat \<rightharpoonup> 'v) \<Rightarrow> bool" where
  "zero_ext m m' \<longleftrightarrow> (\<forall>k. m' k = m k \<or> (m k = None \<and> m' k = Some 0))"

text \<open>The state a redraw leaves, whether it returned or raised.\<close>

definition drawn :: "(error \<times> world) + (row list \<times> world) \<Rightarrow> world" where
  "drawn r = (case r of Inl (e, w) \<Rightarrow> w | Inr (rs, w) \<Rightarrow> w)"

text \<open>The state after the two updates of \<^verbatim>\<open>line_post\<close> on a line opened at \<open>b\<close>.\<close>

definition post_acc :: "nat \<Rightarrow> real \<Rightarrow> real \<Rightarrow> world \<Rightarrow> world" where
  "post_acc l now b w =
     w\<lparr>floats := (floats w)(line_time (prof w) :=
          (floats w (line_time (prof w)))(l \<mapsto> lookup0 (floats w (line_time (prof w))) l + (now - b))),
       ints := (ints w)(line_evals (prof w) :=
          (ints w (line_evals (prof w)))(l \<mapsto> lookup0 (ints w (line_evals (prof w))) l + 1))\<rparr>"

text \<open>
  The dictionaries in use and the published ones are allocated, and the published
  ones are not the ones in use.
\<close>

definition refs_ok :: "world \<Rightarrow> bool" where
  "refs_ok w \<longleftrightarrow>
     line_time (prof w) < fresh w \<and> line_evals (prof w) < fresh w \<and>
     fst (snd (data (rep w))) < fresh w \<and> snd (snd (data (rep w))) < fresh w \<and>
     fst (snd (data (rep w))) \<noteq> line_time (prof w) \<and>
     snd (snd (data (rep w))) \<noteq> line_evals (prof w)"

text \<open>
  No start time lies after the last reading \<open>t\<close> of the clock, and no dictionary
  of the store holds a negative value.
\<close>

definition acc_inv :: "real \<Rightarrow> world \<Rightarrow> bool" where
  "acc_inv t w \<longleftrightarrow>
     (\<forall>l b. begin_time (prof w) l = Some b \<longrightarrow> b \<le> t) \<and>
     (\<forall>a l v. floats w a l = Some v \<longrightarrow> 0 \<le> v) \<and>
     (\<forall>a l c. ints w a l = Some c \<longrightarrow> 0 \<le> c)"

text \<open>
  The row \<^verbatim>\<open>draw_thread\<close> writes for the line \<open>p\<close> (number and text), and the test
  that a line is on the screen.
\<close>

definition render_line :: "float_ops \<Rightarrow> int \<Rightarrow> real \<Rightarrow> addr \<Rightarrow> addr \<Rightarrow> world \<Rightarrow> nat \<times> string \<Rightarrow> row" where
  "render_line fl h iv tt ev w p =
     \<lparr>row_y = int (fst p) - scroll (rep w),
      row_percent = percent_text (fmul fl (fdiv fl (lookup0 (floats w tt) (fst p)) iv) 100),
      row_freq = freq_text fl (fdiv fl (real_of_int (lookup0 (ints w ev) (fst p))) iv),
      row_pair = line_pair (fmul fl (fdiv fl (lookup0 (floats w tt) (fst p)) iv) 100),
      row_line = snd p\<rparr>"

definition on_screen :: "int \<Rightarrow> world \<Rightarrow> nat \<Rightarrow> bool" where
  "on_screen h w k \<longleftrightarrow> 0 < int k - scroll (rep w) \<and> int k - scroll (rep w) < h"

section \<open>Correctness of the instrumenter\<close>

declare annotate_loop.simps [simp del]

lemma instrument_block_simps [simp]:
  "instrument_block [] = []"
  "instrument_block (s # ss) = instrument_stmt s @ instrument_block ss"
  "instrument_block (xs @ ys) = instrument_block xs @ instrument_block ys"
  by (simp_all add: instrument_block_def)

lemma instrument_stmt_length: "0 < length (instrument_stmt s)"
  by (cases s) simp_all

lemma annotate_loop_exit: "\<not> i < n \<Longrightarrow> annotate_loop i n offset body = Inr body"
  by (subst annotate_loop.simps) simp

lemma annotate_loop_at:
  assumes "i < n" and "length front = i + offset"
  shows "annotate_loop i n offset (front @ s # rest) =
    (if is_measurable s then
       annotate_loop (i + 1) n (offset + 2)
         (front @ parse_hook LinePre (node_lineno s) # s # parse_hook LinePost (node_lineno s) # rest)
     else if is_control_transfer s then
       annotate_loop (i + 1) n (offset + 1) (front @ parse_hook ExitPre (node_lineno s) # s # rest)
     else
       (case s of
          If l t b e \<Rightarrow>
            (case annotate b of Inl err \<Rightarrow> Inl err | Inr b' \<Rightarrow>
             (case annotate e of Inl err \<Rightarrow> Inl err | Inr e' \<Rightarrow>
                annotate_loop (i + 1) n offset (front @ If l t b' e' # rest)))
        | While l t b e \<Rightarrow>
            (case annotate b of Inl err \<Rightarrow> Inl err | Inr b' \<Rightarrow>
             (case annotate e of Inl err \<Rightarrow> Inl err | Inr e' \<Rightarrow>
                annotate_loop (i + 1) n offset (front @ While l t b' e' # rest)))
        | For l t b e \<Rightarrow>
            (case annotate b of Inl err \<Rightarrow> Inl err | Inr b' \<Rightarrow>
             (case annotate e of Inl err \<Rightarrow> Inl err | Inr e' \<Rightarrow>
                annotate_loop (i + 1) n offset (front @ For l t b' e' # rest)))
        | Try l b hs e f \<Rightarrow>
            (case annotate b of Inl err \<Rightarrow> Inl err | Inr b' \<Rightarrow>
             (case annotate e of Inl err \<Rightarrow> Inl err | Inr e' \<Rightarrow>
             (case annotate_handlers hs of Inl err \<Rightarrow> Inl err | Inr hs' \<Rightarrow>
             (case annotate f of Inl err \<Rightarrow> Inl err | Inr f' \<Rightarrow>
                annotate_loop (i + 1) n offset (front @ Try l b' hs' e' f' # rest)))))
        | FunctionDef l t b \<Rightarrow>
            (case annotate b of Inl err \<Rightarrow> Inl err | Inr b' \<Rightarrow>
                annotate_loop (i + 1) n offset (front @ FunctionDef l t b' # rest))
        | ClassDef l t b \<Rightarrow>
            (case annotate b of Inl err \<Rightarrow> Inl err | Inr b' \<Rightarrow>
                annotate_loop (i + 1) n offset (front @ ClassDef l t b' # rest))
        | With l t b \<Rightarrow>
            (case annotate b of Inl err \<Rightarrow> Inl err | Inr b' \<Rightarrow>
                annotate_loop (i + 1) n offset (front @ With l t b' # rest))
        | _ \<Rightarrow> annotate_loop (i + 1) n offset (front @ s # rest)))"
proof -
  have nth: "(front @ s # rest) ! (i + offset) = s"
    using assms(2) by (metis nth_append_length)
  have ins1: "list_insert (i + offset) x (front @ s # rest) = front @ x # s # rest" for x
    using assms(2) by (simp add: list_insert_def)
  have ins2: "list_insert (i + offset + 2) y (front @ x # s # rest) = front @ x # s # y # rest" for x y
    using assms(2) by (simp add: list_insert_def)
  have upd: "(front @ s # rest)[i + offset := x] = front @ x # rest" for x
    using assms(2) by (metis list_update_length)
  show ?thesis
    apply (subst annotate_loop.simps)
    using assms apply (simp only: Let_def nth ins1 ins2 upd if_True)
    apply (simp split: stmt.split sum.split)
    done
qed

lemma annotate_loop_block:
  assumes step: "\<And>s i offset front rest'. s \<in> set rest \<Longrightarrow> i < n \<Longrightarrow> length front = i + offset \<Longrightarrow>
      annotate_loop i n offset (front @ s # rest') =
      annotate_loop (Suc i) n (offset + (length (instrument_stmt s) - 1))
        (front @ instrument_stmt s @ rest')"
    and "length front = i + offset" and "n = i + length rest"
  shows "annotate_loop i n offset (front @ rest) = Inr (front @ instrument_block rest)"
  using assms
proof (induction rest arbitrary: i offset front)
  case Nil
  then show ?case by (simp add: annotate_loop_exit)
next
  case (Cons s rest)
  have "annotate_loop i n offset (front @ s # rest) =
      annotate_loop (Suc i) n (offset + (length (instrument_stmt s) - 1))
        ((front @ instrument_stmt s) @ rest)"
    using Cons.prems by simp
  also have "\<dots> = Inr ((front @ instrument_stmt s) @ instrument_block rest)"
  proof (rule Cons.IH)
    show "length (front @ instrument_stmt s) = Suc i + (offset + (length (instrument_stmt s) - 1))"
      using Cons.prems(2) instrument_stmt_length [of s] by simp
    show "n = Suc i + length rest"
      using Cons.prems(3) by simp
  qed (use Cons.prems(1) in simp)
  finally show ?case by simp
qed

lemma annotate_block:
  assumes "\<And>s i n offset front rest'. s \<in> set body \<Longrightarrow> i < n \<Longrightarrow> length front = i + offset \<Longrightarrow>
      annotate_loop i n offset (front @ s # rest') =
      annotate_loop (Suc i) n (offset + (length (instrument_stmt s) - 1))
        (front @ instrument_stmt s @ rest')"
  shows "annotate body = Inr (instrument_block body)"
  using annotate_loop_block [where rest = body and n = "length body" and i = 0 and offset = 0 and front = "[]"] assms
  by simp

lemma annotate_handlers_block:
  assumes "\<And>h. h \<in> set hs \<Longrightarrow> annotate (snd h) = Inr (instrument_block (snd h))"
  shows "annotate_handlers hs = Inr (map (\<lambda>h. (fst h, instrument_block (snd h))) hs)"
  using assms by (induction hs) simp_all

lemma annotate_loop_stmt:
  "i < n \<Longrightarrow> length front = i + offset \<Longrightarrow>
    annotate_loop i n offset (front @ s # rest) =
    annotate_loop (Suc i) n (offset + (length (instrument_stmt s) - 1))
      (front @ instrument_stmt s @ rest)"
proof (induction s arbitrary: i n offset front rest)
  case (If l t b e)
  have "annotate b = Inr (instrument_block b)"
    by (rule annotate_block, rule If.IH(1), assumption+)
  moreover have "annotate e = Inr (instrument_block e)"
    by (rule annotate_block, rule If.IH(2), assumption+)
  ultimately show ?case
    using If.prems by (simp add: annotate_loop_at instrument_block_def)
next
  case (While l t b e)
  have "annotate b = Inr (instrument_block b)"
    by (rule annotate_block, rule While.IH(1), assumption+)
  moreover have "annotate e = Inr (instrument_block e)"
    by (rule annotate_block, rule While.IH(2), assumption+)
  ultimately show ?case
    using While.prems by (simp add: annotate_loop_at instrument_block_def)
next
  case (For l t b e)
  have "annotate b = Inr (instrument_block b)"
    by (rule annotate_block, rule For.IH(1), assumption+)
  moreover have "annotate e = Inr (instrument_block e)"
    by (rule annotate_block, rule For.IH(2), assumption+)
  ultimately show ?case
    using For.prems by (simp add: annotate_loop_at instrument_block_def)
next
  case (Try l b hs e f)
  have "annotate b = Inr (instrument_block b)"
    by (rule annotate_block, rule Try.IH(1), assumption+)
  moreover have "annotate e = Inr (instrument_block e)"
    by (rule annotate_block, rule Try.IH(3), assumption+)
  moreover have "annotate f = Inr (instrument_block f)"
    by (rule annotate_block, rule Try.IH(4), assumption+)
  moreover have "annotate (snd h) = Inr (instrument_block (snd h))" if "h \<in> set hs" for h
  proof (rule annotate_block)
    fix s :: stmt and i n offset :: nat and front rest' :: "stmt list"
    assume s: "s \<in> set (snd h)" and i: "i < n" and len: "length front = i + offset"
    have "snd h \<in> Basic_BNFs.snds h"
      by (cases h) simp
    from Try.IH(2) [OF that this s i len]
    show "annotate_loop i n offset (front @ s # rest') =
      annotate_loop (Suc i) n (offset + (length (instrument_stmt s) - 1))
        (front @ instrument_stmt s @ rest')" .
  qed
  then have "annotate_handlers hs = Inr (map (\<lambda>h. (fst h, instrument_block (snd h))) hs)"
    by (rule annotate_handlers_block)
  ultimately show ?case
    using Try.prems by (simp add: annotate_loop_at instrument_block_def)
next
  case (FunctionDef l t b)
  have "annotate b = Inr (instrument_block b)"
    by (rule annotate_block, rule FunctionDef.IH, assumption+)
  then show ?case
    using FunctionDef.prems by (simp add: annotate_loop_at instrument_block_def)
next
  case (ClassDef l t b)
  have "annotate b = Inr (instrument_block b)"
    by (rule annotate_block, rule ClassDef.IH, assumption+)
  then show ?case
    using ClassDef.prems by (simp add: annotate_loop_at instrument_block_def)
next
  case (With l t b)
  have "annotate b = Inr (instrument_block b)"
    by (rule annotate_block, rule With.IH, assumption+)
  then show ?case
    using With.prems by (simp add: annotate_loop_at instrument_block_def)
qed (simp_all add: annotate_loop_at)

lemma annotate_refines: "annotate body = Inr (instrument_block body)"
  by (rule annotate_block) (rule annotate_loop_stmt)






text \<open>
  Claim C1, as stated, fails. It speaks of every assignment, at every nesting depth
  inside loops and definition bodies; the instrumenter knows six statement classes
  as measurable and seven as statements with blocks, and leaves a node of any
  other class as it is, blocks included. The assignment \<^verbatim>\<open>x = 1\<close> in the body of
  \<^verbatim>\<open>async def f()\<close> or of an \<^verbatim>\<open>async for\<close> loop gets no hook, and neither does
  the annotated assignment \<^verbatim>\<open>x: int = 1\<close>.
\<close>

theorem annotate_leaves_unrecognised_kinds:
  "is_measurable (Assign 2 0) \<and>
   annotate [AsyncFunctionDef 1 0 [Assign 2 0]] = Inr [AsyncFunctionDef 1 0 [Assign 2 0]] \<and>
   annotate [AsyncFor 1 0 [Assign 2 0] []] = Inr [AsyncFor 1 0 [Assign 2 0] []] \<and>
   annotate [AnnAssign 1 0] = Inr [AnnAssign 1 0]"
proof -
  have "annotate [AsyncFunctionDef 1 0 [Assign 2 0]] = Inr [AsyncFunctionDef 1 0 [Assign 2 0]]"
    using annotate_refines [of "[AsyncFunctionDef 1 0 [Assign 2 0]]"] by simp
  moreover have "annotate [AsyncFor 1 0 [Assign 2 0] []] = Inr [AsyncFor 1 0 [Assign 2 0] []]"
    using annotate_refines [of "[AsyncFor 1 0 [Assign 2 0] []]"] by simp
  moreover have "annotate [AnnAssign 1 0] = Inr [AnnAssign 1 0]"
    using annotate_refines [of "[AnnAssign 1 0]"] by simp
  ultimately show ?thesis by simp
qed

text \<open>
  Claim C1, as amended. For every block handed to \<^verbatim>\<open>annotate\<close> and every statement
  in it of a measurable class (\<^verbatim>\<open>Expr\<close>, \<^verbatim>\<open>Assign\<close>, \<^verbatim>\<open>Delete\<close>, \<^verbatim>\<open>AugAssign\<close>,
  \<^verbatim>\<open>Import\<close>, \<^verbatim>\<open>ImportFrom\<close>), \<^verbatim>\<open>annotate\<close> returns without raising, and the
  block it leaves is the original block with every statement kept in its place and
  order, a begin hook (\<^verbatim>\<open>line_pre\<close>) immediately before and an end hook
  (\<^verbatim>\<open>line_post\<close>) immediately after the measurable statement, both with the
  statement's own line number. The first conjunct gives the same at every nesting
  depth inside the blocks of \<^verbatim>\<open>If\<close>, \<^verbatim>\<open>While\<close>, \<^verbatim>\<open>For\<close> (body and else clause),
  \<^verbatim>\<open>Try\<close> (body, handlers, else and final block), \<^verbatim>\<open>FunctionDef\<close>, \<^verbatim>\<open>ClassDef\<close>
  and \<^verbatim>\<open>With\<close>: the result is \<^const>\<open>instrument_block\<close> of the input. The last
  conjunct is the other half: a statement of any other class that is not a control
  transfer stays exactly as it is, with the blocks it owns.
\<close>

theorem annotate_brackets_measurable:
  "annotate body = Inr (instrument_block body) \<and>
   (is_measurable s \<longrightarrow>
      annotate (front @ s # rest) =
        Inr (instrument_block front @
             [parse_hook LinePre (node_lineno s), s, parse_hook LinePost (node_lineno s)] @
             instrument_block rest)) \<and>
   (\<not> is_measurable s \<and> \<not> is_control_transfer s \<and> \<not> is_structured s \<longrightarrow>
      annotate (front @ s # rest) =
        Inr (instrument_block front @ [s] @ instrument_block rest))"
proof (intro conjI impI)
  show "annotate body = Inr (instrument_block body)"
    by (rule annotate_refines)
next
  assume m: "is_measurable s"
  then have "instrument_stmt s =
      [parse_hook LinePre (node_lineno s), s, parse_hook LinePost (node_lineno s)]"
    by (cases s) simp_all
  then have "instrument_block (front @ s # rest) =
      instrument_block front @
      [parse_hook LinePre (node_lineno s), s, parse_hook LinePost (node_lineno s)] @
      instrument_block rest"
    by simp
  then show "annotate (front @ s # rest) =
      Inr (instrument_block front @
           [parse_hook LinePre (node_lineno s), s, parse_hook LinePost (node_lineno s)] @
           instrument_block rest)"
    using annotate_refines [of "front @ s # rest"] by simp
next
  assume u: "\<not> is_measurable s \<and> \<not> is_control_transfer s \<and> \<not> is_structured s"
  then have "instrument_stmt s = [s]"
    by (cases s) simp_all
  then have "instrument_block (front @ s # rest) =
      instrument_block front @ [s] @ instrument_block rest"
    by simp
  then show "annotate (front @ s # rest) =
      Inr (instrument_block front @ [s] @ instrument_block rest)"
    using annotate_refines [of "front @ s # rest"] by simp
qed

theorem annotate_brackets_measurable_witness:
  "is_measurable (Assign 3 0) \<and>
   annotate [While 1 0 [Try 2 [Assign 3 0] [(0, [Delete 5 0])] [] [Import 7 0]] [], Assign 3 0, OtherStmt 9 0] =
     Inr [While 1 0
            [Try 2 [Expr 1 (HookCall LinePre 3), Assign 3 0, Expr 1 (HookCall LinePost 3)]
               [(0, [Expr 1 (HookCall LinePre 5), Delete 5 0, Expr 1 (HookCall LinePost 5)])]
               []
               [Expr 1 (HookCall LinePre 7), Import 7 0, Expr 1 (HookCall LinePost 7)]]
            [],
          Expr 1 (HookCall LinePre 3), Assign 3 0, Expr 1 (HookCall LinePost 3),
          OtherStmt 9 0] \<and>
   \<not> is_measurable (AsyncWith 8 0 [Delete 9 0]) \<and>
   \<not> is_control_transfer (AsyncWith 8 0 [Delete 9 0]) \<and>
   \<not> is_structured (AsyncWith 8 0 [Delete 9 0]) \<and>
   annotate [Assign 1 0, AsyncWith 8 0 [Delete 9 0]] =
     Inr [Expr 1 (HookCall LinePre 1), Assign 1 0, Expr 1 (HookCall LinePost 1),
          AsyncWith 8 0 [Delete 9 0]]"
proof -
  have a: "is_measurable (Assign 3 0)"
    by simp
  have u: "\<not> is_measurable (AsyncWith 8 0 [Delete 9 0]) \<and>
      \<not> is_control_transfer (AsyncWith 8 0 [Delete 9 0]) \<and>
      \<not> is_structured (AsyncWith 8 0 [Delete 9 0])"
    by simp
  have "annotate [While 1 0 [Try 2 [Assign 3 0] [(0, [Delete 5 0])] [] [Import 7 0]] [], Assign 3 0, OtherStmt 9 0] =
     Inr [While 1 0
            [Try 2 [Expr 1 (HookCall LinePre 3), Assign 3 0, Expr 1 (HookCall LinePost 3)]
               [(0, [Expr 1 (HookCall LinePre 5), Delete 5 0, Expr 1 (HookCall LinePost 5)])]
               []
               [Expr 1 (HookCall LinePre 7), Import 7 0, Expr 1 (HookCall LinePost 7)]]
            [],
          Expr 1 (HookCall LinePre 3), Assign 3 0, Expr 1 (HookCall LinePost 3),
          OtherStmt 9 0]"
    using annotate_brackets_measurable
      [of "[]" "Assign 3 0"
          "[While 1 0 [Try 2 [Assign 3 0] [(0, [Delete 5 0])] [] [Import 7 0]] []]"
          "[OtherStmt 9 0]"] a
    by (simp add: parse_hook_def)
  moreover have "annotate [Assign 1 0, AsyncWith 8 0 [Delete 9 0]] =
     Inr [Expr 1 (HookCall LinePre 1), Assign 1 0, Expr 1 (HookCall LinePost 1),
          AsyncWith 8 0 [Delete 9 0]]"
    using annotate_brackets_measurable
      [of "[]" "AsyncWith 8 0 [Delete 9 0]" "[Assign 1 0]" "[]"] u
    by (simp add: parse_hook_def)
  ultimately show ?thesis
    using a u by simp
qed



section \<open>Properties of the accumulator\<close>

subsection \<open>\<^verbatim>\<open>line_post\<close> on an open line\<close>

lemma dd_get_fst [simp]: "fst (dd_get 0 d k) = lookup0 d k"
  by (simp add: dd_get_def lookup0_def split: option.split)

lemma dd_get_snd_upd [simp]: "(snd (dd_get z d k))(k \<mapsto> v) = d(k \<mapsto> v)"
  by (simp add: dd_get_def split: option.split)

lemma line_post_open:
  assumes "begin_time (prof w) l = Some b"
  shows "line_post l now now' w =
    (let w1 = w\<lparr>floats := (floats w)(line_time (prof w) :=
                    (floats w (line_time (prof w)))(l \<mapsto> lookup0 (floats w (line_time (prof w))) l + (now - b))),
                 ints := (ints w)(line_evals (prof w) :=
                    (ints w (line_evals (prof w)))(l \<mapsto> lookup0 (ints w (line_evals (prof w))) l + 1))\<rparr>
     in Inr (if 1 < now - last_report (prof w)
             then report (Some (now - last_report (prof w))) now now' w1 else w1))"
  using assms
  by (simp add: line_post_def Let_def split_beta)

text \<open>
  Claim C3. When the line has an open start time \<open>b\<close>, \<^verbatim>\<open>line_post\<close> returns
  normally; it stores, in the current dictionaries, the old cumulative time of the
  line (zero when missing) plus \<open>now - b\<close> and the old count plus one, leaves
  everything else as it was (\<open>w1\<close>), and then flushes (\<^verbatim>\<open>report\<close> with the interval
  \<open>now - last_report\<close>) exactly when that interval is greater than 1.
\<close>

theorem line_post_accumulates:
  assumes "begin_time (prof w) l = Some b"
  shows "\<exists>w1.
      prof w1 = prof w \<and> rep w1 = rep w \<and> fresh w1 = fresh w \<and>
      floats w1 = (floats w)(line_time (prof w) :=
         (floats w (line_time (prof w)))(l \<mapsto> lookup0 (floats w (line_time (prof w))) l + (now - b))) \<and>
      ints w1 = (ints w)(line_evals (prof w) :=
         (ints w (line_evals (prof w)))(l \<mapsto> lookup0 (ints w (line_evals (prof w))) l + 1)) \<and>
      line_post l now now' w =
        Inr (if 1 < now - last_report (prof w)
             then report (Some (now - last_report (prof w))) now now' w1 else w1)"
proof -
  let ?w1 = "w\<lparr>floats := (floats w)(line_time (prof w) :=
                    (floats w (line_time (prof w)))(l \<mapsto> lookup0 (floats w (line_time (prof w))) l + (now - b))),
                 ints := (ints w)(line_evals (prof w) :=
                    (ints w (line_evals (prof w)))(l \<mapsto> lookup0 (ints w (line_evals (prof w))) l + 1))\<rparr>"
  have "line_post l now now' w =
        Inr (if 1 < now - last_report (prof w)
             then report (Some (now - last_report (prof w))) now now' ?w1 else ?w1)"
    using line_post_open [OF assms] by (simp add: Let_def)
  then show ?thesis
    by (intro exI [of _ ?w1]) simp
qed

subsection \<open>\<^verbatim>\<open>line_pre\<close> and \<^verbatim>\<open>report\<close>\<close>

text \<open>
  Claim C5. When the line already has an open start time, the call of \<^verbatim>\<open>line_pre\<close>
  returns normally (no exception), the stored start time of the line is the new
  reading of the clock, and nothing else changes.
\<close>

theorem line_pre_overwrites:
  assumes "begin_time (prof w) l = Some t0"
  shows "\<exists>w'. step fl (Call_line_pre l now) w = Inr w' \<and>
      begin_time (prof w') = (begin_time (prof w))(l \<mapsto> now) \<and>
      begin_time (prof w') l = Some now \<and>
      line_time (prof w') = line_time (prof w) \<and> line_evals (prof w') = line_evals (prof w) \<and>
      last_report (prof w') = last_report (prof w) \<and>
      rep w' = rep w \<and> floats w' = floats w \<and> ints w' = ints w \<and> fresh w' = fresh w"
proof -
  have "step fl (Call_line_pre l now) w = Inr (line_pre l now w)"
    by simp
  moreover have "begin_time (prof (line_pre l now w)) = (begin_time (prof w))(l \<mapsto> now)"
    by (simp add: line_pre_def)
  ultimately show ?thesis
    by (simp add: line_pre_def)
qed

lemma report_prof:
  "prof (report iv now now' w) =
     (prof w)\<lparr>line_time := fresh w, line_evals := fresh w + 1, last_report := now'\<rparr>"
  by (simp add: report_def clear_def Reporter_report_def invalidate_def Let_def)

lemma report_rep:
  "rep (report iv now now' w) =
     (rep w)\<lparr>data := ((case iv of None \<Rightarrow> now - last_report (prof w) | Some x \<Rightarrow> x),
                       line_time (prof w), line_evals (prof w)),
              dirty := True\<rparr>"
  by (simp add: report_def clear_def Reporter_report_def invalidate_def Let_def)

lemma report_store:
  "floats (report iv now now' w) = (floats w)(fresh w := Map.empty)"
  "ints (report iv now now' w) = (ints w)(fresh w + 1 := Map.empty)"
  "fresh (report iv now now' w) = fresh w + 2"
  by (simp_all add: report_def clear_def Reporter_report_def invalidate_def Let_def)

text \<open>
  Claim C10. A flush changes, of the accumulator, only the two dictionaries in use
  (new and empty) and \<^verbatim>\<open>last_report\<close>; the table of open start times is the same.
  So when a line was opened at \<open>b\<close> before the flush and \<^verbatim>\<open>line_post\<close> runs after
  it at \<open>now\<close>, the call succeeds and the window that began with the flush holds
  for the line the whole elapsed time \<open>0 + (now - b)\<close> and the count \<open>0 + 1\<close>.
\<close>

theorem report_keeps_begin_time:
  "prof (report iv tn tc w) =
     (prof w)\<lparr>line_time := fresh w, line_evals := fresh w + 1, last_report := tc\<rparr> \<and>
   begin_time (prof (report iv tn tc w)) = begin_time (prof w) \<and>
   (begin_time (prof w) l = Some b \<longrightarrow>
      (\<exists>w'. line_post l now now' (report iv tn tc w) = Inr w' \<and>
            floats w' (line_time (prof (report iv tn tc w))) l = Some (0 + (now - b)) \<and>
            ints w' (line_evals (prof (report iv tn tc w))) l = Some (0 + 1)))"
proof (intro conjI impI)
  show "prof (report iv tn tc w) =
     (prof w)\<lparr>line_time := fresh w, line_evals := fresh w + 1, last_report := tc\<rparr>"
    by (rule report_prof)
  then show "begin_time (prof (report iv tn tc w)) = begin_time (prof w)"
    by simp
next
  assume b: "begin_time (prof w) l = Some b"
  let ?w = "report iv tn tc w"
  have open_l: "begin_time (prof ?w) l = Some b"
    using b by (simp add: report_prof)
  show "\<exists>w'. line_post l now now' ?w = Inr w' \<and>
      floats w' (line_time (prof ?w)) l = Some (0 + (now - b)) \<and>
      ints w' (line_evals (prof ?w)) l = Some (0 + 1)"
    unfolding line_post_open [OF open_l]
    by (simp add: Let_def report_prof report_store lookup0_def)
qed

subsection \<open>Reading a \<^verbatim>\<open>defaultdict\<close> only adds zero entries\<close>

lemma zero_ext_refl [simp]: "zero_ext m m"
  by (simp add: zero_ext_def)

lemma zero_ext_trans: "zero_ext m m' \<Longrightarrow> zero_ext m' m'' \<Longrightarrow> zero_ext m m''"
  unfolding zero_ext_def by metis

lemma zero_ext_dd_get [simp]: "zero_ext d (snd (dd_get 0 d k))"
  by (simp add: zero_ext_def dd_get_def split: option.split)

lemma zero_ext_lookup0: "zero_ext m m' \<Longrightarrow> lookup0 m' k = lookup0 m k"
  unfolding zero_ext_def lookup0_def by (metis option.simps(4,5))

lemma zero_ext_map_le: "zero_ext m m' \<Longrightarrow> m \<subseteq>\<^sub>m m'"
  unfolding zero_ext_def map_le_def by (metis domIff)

lemma drawn_simps [simp]: "drawn (Inl (e, w)) = w" "drawn (Inr (rs, w)) = w"
  by (simp_all add: drawn_def)

lemma draw_lines_frame:
  "prof (drawn (draw_lines fl n ls h iv tt ev w)) = prof w \<and>
   rep (drawn (draw_lines fl n ls h iv tt ev w)) = rep w \<and>
   fresh (drawn (draw_lines fl n ls h iv tt ev w)) = fresh w \<and>
   (\<forall>a. zero_ext (floats w a) (floats (drawn (draw_lines fl n ls h iv tt ev w)) a)) \<and>
   (\<forall>a. zero_ext (ints w a) (ints (drawn (draw_lines fl n ls h iv tt ev w)) a))"
proof (induction ls arbitrary: n w)
  case Nil
  then show ?case by simp
next
  case (Cons line rest)
  let ?y = "int n - scroll (rep w)"
  show ?case
  proof (cases "0 < ?y \<and> ?y < h")
    case False
    then have "draw_lines fl n (line # rest) h iv tt ev w = draw_lines fl (n + 1) rest h iv tt ev w"
      by (simp add: Let_def)
    then show ?thesis using Cons.IH [of "n + 1" w] by simp
  next
    case vis: True
    let ?w1 = "w\<lparr>floats := (floats w)(tt := snd (dd_get 0 (floats w tt) n))\<rparr>"
    show ?thesis
    proof (cases "iv = 0")
      case True
      then have "draw_lines fl n (line # rest) h iv tt ev w = Inl (ZeroDivisionError, ?w1)"
        using vis by (simp add: Let_def split_beta)
      then show ?thesis by simp
    next
      case False
      let ?w2 = "?w1\<lparr>ints := (ints ?w1)(ev := snd (dd_get 0 (ints ?w1 ev) n))\<rparr>"
      have "drawn (draw_lines fl n (line # rest) h iv tt ev w) =
          drawn (draw_lines fl (n + 1) rest h iv tt ev ?w2)"
        using vis False by (simp add: Let_def split_beta drawn_def split: sum.split)
      moreover have "\<forall>a. zero_ext (floats w a) (floats ?w2 a)"
        by simp
      moreover have "\<forall>a. zero_ext (ints w a) (ints ?w2 a)"
        by simp
      ultimately show ?thesis
        using Cons.IH [of "n + 1" ?w2] by (auto intro: zero_ext_trans)
    qed
  qed
qed

lemma draw_thread_frame:
  "prof (drawn (draw_thread fl h w)) = prof w \<and>
   lines (rep (drawn (draw_thread fl h w))) = lines (rep w) \<and>
   data (rep (drawn (draw_thread fl h w))) = data (rep w) \<and>
   scroll (rep (drawn (draw_thread fl h w))) = scroll (rep w) \<and>
   fresh (drawn (draw_thread fl h w)) = fresh w \<and>
   (\<forall>a. zero_ext (floats w a) (floats (drawn (draw_thread fl h w)) a)) \<and>
   (\<forall>a. zero_ext (ints w a) (ints (drawn (draw_thread fl h w)) a))"
proof -
  let ?w0 = "w\<lparr>rep := (rep w)\<lparr>height := h\<rparr>\<rparr>"
  obtain iv tt ev where d: "data (rep w) = (iv, tt, ev)"
    by (cases "data (rep w)") auto
  let ?r = "draw_lines fl 1 (lines (rep w)) h iv tt ev ?w0"
  have eq: "drawn (draw_thread fl h w) =
      (case ?r of Inl x \<Rightarrow> drawn ?r | Inr x \<Rightarrow> (drawn ?r)\<lparr>rep := (rep (drawn ?r))\<lparr>dirty := False\<rparr>\<rparr>)"
    using d by (simp add: draw_thread_def Let_def drawn_def split: sum.split prod.split)
  show ?thesis
    using draw_lines_frame [of fl 1 "lines (rep w)" h iv tt ev ?w0]
    by (cases ?r) (simp_all add: eq)
qed

lemma step_Redraw: "world_after (step fl (Redraw h) w) = drawn (draw_thread fl h w)"
  by (simp add: world_after_def drawn_def split: sum.split prod.split)

subsection \<open>What each step leaves unchanged\<close>

lemma input_thread_frame [simp]:
  "prof (input_thread c w) = prof w"
  "floats (input_thread c w) = floats w"
  "ints (input_thread c w) = ints w"
  "fresh (input_thread c w) = fresh w"
  "lines (rep (input_thread c w)) = lines (rep w)"
  "data (rep (input_thread c w)) = data (rep w)"
  "height (rep (input_thread c w)) = height (rep w)"
  by (simp_all add: input_thread_def invalidate_def handle_key_def clamp_scroll_def Let_def)

lemma line_pre_frame [simp]:
  "begin_time (prof (line_pre l now w)) = (begin_time (prof w))(l \<mapsto> now)"
  "line_time (prof (line_pre l now w)) = line_time (prof w)"
  "line_evals (prof (line_pre l now w)) = line_evals (prof w)"
  "last_report (prof (line_pre l now w)) = last_report (prof w)"
  "floats (line_pre l now w) = floats w"
  "ints (line_pre l now w) = ints w"
  "fresh (line_pre l now w) = fresh w"
  "rep (line_pre l now w) = rep w"
  by (simp_all add: line_pre_def)

lemma exit_pre_frame [simp]:
  "prof (exit_pre l w) = prof w"
  "floats (exit_pre l w) = floats w"
  "ints (exit_pre l w) = (ints w)(line_evals (prof w) :=
      (ints w (line_evals (prof w)))(l \<mapsto> lookup0 (ints w (line_evals (prof w))) l + 1))"
  "fresh (exit_pre l w) = fresh w"
  "rep (exit_pre l w) = rep w"
  by (simp_all add: exit_pre_def Let_def split_beta)

lemma line_post_closed:
  assumes "begin_time (prof w) l = None"
  shows "line_post l now now' w =
    Inl (KeyError, w\<lparr>floats := (floats w)(line_time (prof w) :=
                         snd (dd_get 0 (floats w (line_time (prof w))) l))\<rparr>)"
  using assms by (simp add: line_post_def Let_def split_beta)

lemma world_after_line_post:
  "world_after (line_post l now now' w) =
     (case begin_time (prof w) l of
        None \<Rightarrow> w\<lparr>floats := (floats w)(line_time (prof w) :=
                         snd (dd_get 0 (floats w (line_time (prof w))) l))\<rparr>
      | Some b \<Rightarrow>
          if 1 < now - last_report (prof w)
          then report (Some (now - last_report (prof w))) now now' (post_acc l now b w)
          else post_acc l now b w)"
proof (cases "begin_time (prof w) l")
  case None
  then show ?thesis
    by (simp add: line_post_closed world_after_def)
next
  case (Some b)
  then show ?thesis
    by (simp add: line_post_open world_after_def Let_def post_acc_def)
qed

lemma post_acc_frame [simp]:
  "prof (post_acc l now b w) = prof w"
  "rep (post_acc l now b w) = rep w"
  "fresh (post_acc l now b w) = fresh w"
  by (simp_all add: post_acc_def)

subsection \<open>The dictionaries in use are allocated, and not the published ones\<close>

lemma refs_ok_init: "refs_ok (init_world ls t0)"
  by (simp add: refs_ok_def init_world_def clear_def Let_def)

lemma refs_ok_report: "refs_ok w \<Longrightarrow> refs_ok (report iv now now' w)"
  by (simp add: refs_ok_def report_prof report_rep report_store)

lemma refs_ok_step: "refs_ok w \<Longrightarrow> refs_ok (world_after (step fl e w))"
proof (cases e)
  case (Call_line_post l now now')
  assume "refs_ok w"
  moreover from this have "refs_ok (post_acc l now b w)" for b
    by (simp add: refs_ok_def)
  ultimately show ?thesis
    using Call_line_post
    by (auto simp add: world_after_line_post refs_ok_report split: option.split)
      (simp add: refs_ok_def)
next
  case (Redraw h)
  assume "refs_ok w"
  then show ?thesis
    unfolding Redraw step_Redraw
    using draw_thread_frame [of fl h w] by (simp add: refs_ok_def)
qed (simp_all add: refs_ok_def world_after_def)

lemma refs_ok_run: "refs_ok w \<Longrightarrow> refs_ok (run fl es w)"
  by (induction es arbitrary: w) (simp_all add: refs_ok_step)

subsection \<open>Accumulated values are never negative under a monotonic clock\<close>

lemma acc_inv_init: "acc_inv t0 (init_world ls t0)"
  by (simp add: acc_inv_def init_world_def clear_def Let_def)

lemma acc_inv_mono:
  assumes "acc_inv t w" and "t \<le> t'"
  shows "acc_inv t' w"
proof -
  have "b \<le> t'" if "begin_time (prof w) l = Some b" for l b
  proof -
    have "b \<le> t" using assms(1) that by (simp add: acc_inv_def)
    then show ?thesis using assms(2) by simp
  qed
  then show ?thesis
    using assms(1) by (simp add: acc_inv_def)
qed

lemma acc_inv_line_pre:
  assumes "acc_inv t w" and "t \<le> now"
  shows "acc_inv now (line_pre l now w)"
proof -
  have "acc_inv now w"
    using assms by (rule acc_inv_mono)
  then show ?thesis
    by (simp add: acc_inv_def)
qed

lemma lookup0_nonneg:
  "(\<And>v. d l = Some v \<Longrightarrow> 0 \<le> v) \<Longrightarrow> 0 \<le> lookup0 d (l::nat)"
  for d :: "nat \<rightharpoonup> 'v::{zero,preorder}"
  by (cases "d l") (simp_all add: lookup0_def)

lemma acc_inv_exit_pre: "acc_inv t w \<Longrightarrow> acc_inv t (exit_pre l w)"
proof -
  assume inv: "acc_inv t w"
  then have "0 \<le> lookup0 (ints w (line_evals (prof w))) l"
    by (intro lookup0_nonneg) (auto simp: acc_inv_def)
  with inv show ?thesis
    unfolding acc_inv_def by (auto split: if_splits)
qed

lemma acc_inv_report: "acc_inv t w \<Longrightarrow> acc_inv t (report iv now now' w)"
  unfolding acc_inv_def by (auto simp add: report_prof report_store split: if_splits)

lemma acc_inv_post_acc:
  assumes inv: "acc_inv t w" and le: "t \<le> now" and b: "begin_time (prof w) l = Some b"
  shows "acc_inv t (post_acc l now b w)"
proof -
  have "0 \<le> lookup0 (floats w (line_time (prof w))) l"
    using inv by (intro lookup0_nonneg) (auto simp: acc_inv_def)
  moreover have "0 \<le> now - b"
  proof -
    have "b \<le> t" using inv b by (simp add: acc_inv_def)
    then show ?thesis using le by simp
  qed
  moreover have "0 \<le> lookup0 (ints w (line_evals (prof w))) l"
    using inv by (intro lookup0_nonneg) (auto simp: acc_inv_def)
  ultimately show ?thesis
    using inv unfolding acc_inv_def post_acc_def by (auto split: if_splits)
qed

lemma acc_inv_zero_ext:
  assumes "acc_inv t w" and "prof w' = prof w"
    and "\<forall>a. zero_ext (floats w a) (floats w' a)" and "\<forall>a. zero_ext (ints w a) (ints w' a)"
  shows "acc_inv t w'"
proof -
  have f: "0 \<le> v" if "floats w' a l = Some v" for a l v
  proof -
    have "floats w' a l = floats w a l \<or> floats w' a l = Some 0"
      using assms(3) by (auto simp add: zero_ext_def)
    then show ?thesis
      using that assms(1) by (auto simp add: acc_inv_def)
  qed
  have i: "0 \<le> c" if "ints w' a l = Some c" for a l c
  proof -
    have "ints w' a l = ints w a l \<or> ints w' a l = Some 0"
      using assms(4) by (auto simp add: zero_ext_def)
    then show ?thesis
      using that assms(1) by (auto simp add: acc_inv_def)
  qed
  show ?thesis
    using assms(1,2) f i by (simp add: acc_inv_def)
qed

lemma acc_inv_line_post:
  assumes inv: "acc_inv t w" and le: "t \<le> now"
  shows "acc_inv t (world_after (line_post l now now' w))"
proof (cases "begin_time (prof w) l")
  case None
  let ?w' = "w\<lparr>floats := (floats w)(line_time (prof w) :=
                         snd (dd_get 0 (floats w (line_time (prof w))) l))\<rparr>"
  have "acc_inv t ?w'"
    by (rule acc_inv_zero_ext [OF inv]) simp_all
  with None show ?thesis
    by (simp add: world_after_line_post)
next
  case (Some b)
  then show ?thesis
    using acc_inv_post_acc [OF inv le Some]
    by (simp add: world_after_line_post acc_inv_report)
qed

lemma acc_inv_draw:
  assumes "acc_inv t w"
  shows "acc_inv t (drawn (draw_thread fl h w))"
  using draw_thread_frame [of fl h w] by (intro acc_inv_zero_ext [OF assms]) simp_all

lemma acc_inv_input: "acc_inv t w \<Longrightarrow> acc_inv t (input_thread c w)"
  by (simp add: acc_inv_def)

lemma acc_inv_step:
  assumes "clock_ok t (e # es)" and "acc_inv t w"
  shows "\<exists>t'. clock_ok t' es \<and> acc_inv t' (world_after (step fl e w))"
proof (cases e)
  case (Call_line_pre l now)
  from assms(1) have le: "t \<le> now" and ok: "clock_ok now es"
    unfolding Call_line_pre by simp_all
  have "acc_inv now (line_pre l now w)"
    using assms(2) le by (rule acc_inv_line_pre)
  then have "acc_inv now (world_after (step fl e w))"
    unfolding Call_line_pre by (simp add: world_after_def)
  with ok show ?thesis by blast
next
  case (Call_exit_pre l)
  from assms(1) have ok: "clock_ok t es"
    unfolding Call_exit_pre by simp
  have "acc_inv t (exit_pre l w)"
    using assms(2) by (rule acc_inv_exit_pre)
  then have "acc_inv t (world_after (step fl e w))"
    unfolding Call_exit_pre by (simp add: world_after_def)
  with ok show ?thesis by blast
next
  case (Call_line_post l now now')
  from assms(1) have le: "t \<le> now" "now \<le> now'" and ok: "clock_ok now' es"
    unfolding Call_line_post by simp_all
  have "acc_inv t (world_after (line_post l now now' w))"
    using assms(2) le(1) by (rule acc_inv_line_post)
  moreover have "t \<le> now'"
    using le by simp
  ultimately have "acc_inv now' (world_after (line_post l now now' w))"
    by (rule acc_inv_mono)
  then have "acc_inv now' (world_after (step fl e w))"
    unfolding Call_line_post by simp
  with ok show ?thesis by blast
next
  case (Getch c)
  from assms(1) have ok: "clock_ok t es"
    unfolding Getch by simp
  have "acc_inv t (input_thread c w)"
    using assms(2) by (rule acc_inv_input)
  then have "acc_inv t (world_after (step fl e w))"
    unfolding Getch by (simp add: world_after_def)
  with ok show ?thesis by blast
next
  case (Redraw h)
  from assms(1) have "clock_ok t es"
    unfolding Redraw by simp
  moreover have "acc_inv t (world_after (step fl e w))"
    unfolding Redraw step_Redraw using assms(2) by (rule acc_inv_draw)
  ultimately show ?thesis by blast
qed

lemma acc_inv_run: "clock_ok t es \<Longrightarrow> acc_inv t w \<Longrightarrow> \<exists>t'. acc_inv t' (run fl es w)"
proof (induction es arbitrary: t w)
  case Nil
  then show ?case by (intro exI [of _ t]) simp
next
  case (Cons e es)
  from acc_inv_step [OF Cons.prems] obtain t'
    where "clock_ok t' es" "acc_inv t' (world_after (step fl e w))"
    by blast
  from Cons.IH [OF this] show ?case by simp
qed

text \<open>
  Claim C4. At any state the program can reach under a monotonic clock, a call of
  \<^verbatim>\<open>report\<close> publishes (stores in the reporter's \<^verbatim>\<open>data\<close> and sets \<^verbatim>\<open>dirty\<close>) the
  interval (the time since the last publish, unless the caller gave it) together
  with the two dictionaries in use, unchanged; afterwards the dictionaries in use
  are new and empty and \<^verbatim>\<open>last_report\<close> is the new reading of the clock; and every
  value in the published dictionaries is at least zero.
\<close>

theorem report_publishes_and_resets:
  assumes "clock_ok t0 es"
  shows "let w = run fl es (init_world ls t0); w' = report iv tn tc w;
             a = line_time (prof w); b = line_evals (prof w)
         in data (rep w') =
              ((case iv of None \<Rightarrow> tn - last_report (prof w) | Some x \<Rightarrow> x), a, b) \<and>
            dirty (rep w') \<and>
            floats w' a = floats w a \<and> ints w' b = ints w b \<and>
            floats w' (line_time (prof w')) = Map.empty \<and>
            ints w' (line_evals (prof w')) = Map.empty \<and>
            last_report (prof w') = tc \<and>
            (\<forall>l v. floats w' a l = Some v \<longrightarrow> 0 \<le> v) \<and>
            (\<forall>l c. ints w' b l = Some c \<longrightarrow> 0 \<le> c)"
proof -
  define w where "w = run fl es (init_world ls t0)"
  have refs: "refs_ok w"
    unfolding w_def by (intro refs_ok_run refs_ok_init)
  obtain t' where inv: "acc_inv t' w"
    unfolding w_def using acc_inv_run [OF assms acc_inv_init] by blast
  have a: "line_time (prof w) \<noteq> fresh w" and b: "line_evals (prof w) \<noteq> fresh w + 1"
    using refs by (simp_all add: refs_ok_def)
  have pub: "floats (report iv tn tc w) (line_time (prof w)) = floats w (line_time (prof w))"
    "ints (report iv tn tc w) (line_evals (prof w)) = ints w (line_evals (prof w))"
    using a b by (simp_all add: report_store)
  have nonneg: "\<forall>l v. floats w (line_time (prof w)) l = Some v \<longrightarrow> 0 \<le> v"
    "\<forall>l c. ints w (line_evals (prof w)) l = Some c \<longrightarrow> 0 \<le> c"
    using inv unfolding acc_inv_def by blast+
  show ?thesis
    unfolding Let_def w_def [symmetric] pub
    using nonneg by (simp add: report_rep report_prof report_store)
qed

subsection \<open>Only \<open>line_pre\<close> writes the table of start times\<close>

lemma begin_time_step:
  "begin_time (prof (world_after (step fl e w))) =
     (case e of Call_line_pre l now \<Rightarrow> (begin_time (prof w))(l \<mapsto> now)
      | _ \<Rightarrow> begin_time (prof w))"
proof (cases e)
  case (Call_line_post l now now')
  then show ?thesis
    by (simp add: world_after_line_post report_prof split: option.split)
next
  case (Redraw h)
  show ?thesis
    unfolding Redraw step_Redraw using draw_thread_frame [of fl h w] by simp
qed (simp_all add: world_after_def)

lemma dom_begin_time_run:
  "dom (begin_time (prof (run fl es w))) =
     dom (begin_time (prof w)) \<union> {l. \<exists>t. Call_line_pre l t \<in> set es}"
proof (induction es arbitrary: w)
  case Nil
  then show ?case by simp
next
  case (Cons e es)
  have "dom (begin_time (prof (world_after (step fl e w)))) =
      dom (begin_time (prof w)) \<union> {l. \<exists>t. e = Call_line_pre l t}"
    unfolding begin_time_step by (cases e) auto
  then show ?case
    using Cons.IH [of "world_after (step fl e w)"] by auto
qed

lemma begin_time_init: "begin_time (prof (init_world ls t0)) = Map.empty"
  by (simp add: init_world_def clear_def Let_def)

text \<open>
  Claim C9. After any run \<open>es\<close> from the initial state, \<^verbatim>\<open>line_post\<close> on a line
  returns normally when \<open>es\<close> holds a call of \<^verbatim>\<open>line_pre\<close> for that line (however
  many flushes came after it), and raises \<^verbatim>\<open>KeyError\<close> when it holds none.
\<close>

theorem line_post_needs_line_pre:
  "((\<exists>t. Call_line_pre l t \<in> set es) \<longrightarrow>
      (\<exists>w'. line_post l now now' (run fl es (init_world ls t0)) = Inr w')) \<and>
   (\<not> (\<exists>t. Call_line_pre l t \<in> set es) \<longrightarrow>
      (\<exists>w'. line_post l now now' (run fl es (init_world ls t0)) = Inl (KeyError, w')))"
proof -
  let ?w = "run fl es (init_world ls t0)"
  have dom: "dom (begin_time (prof ?w)) = {l. \<exists>t. Call_line_pre l t \<in> set es}"
    by (simp add: dom_begin_time_run begin_time_init)
  show ?thesis
  proof (intro conjI impI)
    assume "\<exists>t. Call_line_pre l t \<in> set es"
    then have "l \<in> dom (begin_time (prof ?w))"
      unfolding dom by simp
    then obtain b where "begin_time (prof ?w) l = Some b"
      by blast
    then show "\<exists>w'. line_post l now now' ?w = Inr w'"
      by (simp add: line_post_open Let_def)
  next
    assume "\<not> (\<exists>t. Call_line_pre l t \<in> set es)"
    then have "l \<notin> dom (begin_time (prof ?w))"
      unfolding dom by simp
    then have "begin_time (prof ?w) l = None"
      by blast
    then show "\<exists>w'. line_post l now now' ?w = Inl (KeyError, w')"
      by (simp add: line_post_closed)
  qed
qed

subsection \<open>A published dictionary only ever gains zero entries\<close>

lemma published_step:
  assumes "a \<noteq> line_time (prof w)" and "a < fresh w"
    and "b \<noteq> line_evals (prof w)" and "b < fresh w"
  shows "zero_ext (floats w a) (floats (world_after (step fl e w)) a) \<and>
         zero_ext (ints w b) (ints (world_after (step fl e w)) b) \<and>
         a \<noteq> line_time (prof (world_after (step fl e w))) \<and> a < fresh (world_after (step fl e w)) \<and>
         b \<noteq> line_evals (prof (world_after (step fl e w))) \<and> b < fresh (world_after (step fl e w)) \<and>
         ((\<forall>h. e \<noteq> Redraw h) \<longrightarrow>
            floats (world_after (step fl e w)) a = floats w a \<and>
            ints (world_after (step fl e w)) b = ints w b)"
proof (cases e)
  case (Call_line_pre l now)
  then show ?thesis using assms by (simp add: world_after_def)
next
  case (Call_exit_pre l)
  then show ?thesis using assms by (simp add: world_after_def)
next
  case (Call_line_post l now now')
  show ?thesis
  proof (cases "begin_time (prof w) l")
    case None
    then show ?thesis
      using assms Call_line_post by (simp add: world_after_line_post)
  next
    case (Some t)
    then show ?thesis
      using assms Call_line_post
      by (simp add: world_after_line_post report_prof report_store post_acc_def)
  qed
next
  case (Getch c)
  then show ?thesis using assms by (simp add: world_after_def)
next
  case (Redraw h)
  show ?thesis
    unfolding Redraw step_Redraw using assms draw_thread_frame [of fl h w] by simp
qed

lemma published_run:
  assumes "a \<noteq> line_time (prof w)" and "a < fresh w"
    and "b \<noteq> line_evals (prof w)" and "b < fresh w"
  shows "zero_ext (floats w a) (floats (run fl es w) a) \<and>
         zero_ext (ints w b) (ints (run fl es w) b) \<and>
         ((\<forall>h. Redraw h \<notin> set es) \<longrightarrow>
            floats (run fl es w) a = floats w a \<and> ints (run fl es w) b = ints w b)"
  using assms
proof (induction es arbitrary: w)
  case Nil
  then show ?case by simp
next
  case (Cons e es)
  let ?w = "world_after (step fl e w)"
  note s = published_step [OF Cons.prems, of fl e]
  have ih: "zero_ext (floats ?w a) (floats (run fl es ?w) a) \<and>
         zero_ext (ints ?w b) (ints (run fl es ?w) b) \<and>
         ((\<forall>h. Redraw h \<notin> set es) \<longrightarrow>
            floats (run fl es ?w) a = floats ?w a \<and> ints (run fl es ?w) b = ints ?w b)"
    by (rule Cons.IH) (use s in simp_all)
  have "zero_ext (floats w a) (floats (run fl es ?w) a)"
    using s ih by (blast intro: zero_ext_trans)
  moreover have "zero_ext (ints w b) (ints (run fl es ?w) b)"
    using s ih by (blast intro: zero_ext_trans)
  moreover have "floats (run fl es ?w) a = floats w a \<and> ints (run fl es ?w) b = ints w b"
    if "\<forall>h. Redraw h \<notin> set (e # es)"
  proof -
    from that have "\<forall>h. e \<noteq> Redraw h" "\<forall>h. Redraw h \<notin> set es"
      by auto
    then show ?thesis using s ih by simp
  qed
  ultimately show ?case by simp
qed

lemma render_line_cong:
  assumes "rep w' = rep w"
    and "\<forall>a. zero_ext (floats w a) (floats w' a)" and "\<forall>a. zero_ext (ints w a) (ints w' a)"
  shows "render_line fl h iv tt ev w' = render_line fl h iv tt ev w"
    and "on_screen h w' = on_screen h w"
proof -
  have f: "lookup0 (floats w' tt) k = lookup0 (floats w tt) k" for k
    using assms(2) by (intro zero_ext_lookup0) simp
  have i: "lookup0 (ints w' ev) k = lookup0 (ints w ev) k" for k
    using assms(3) by (intro zero_ext_lookup0) simp
  show "render_line fl h iv tt ev w' = render_line fl h iv tt ev w"
    by (simp add: render_line_def fun_eq_iff f i assms(1))
  show "on_screen h w' = on_screen h w"
    by (simp add: on_screen_def fun_eq_iff assms(1))
qed

lemma draw_lines_rows:
  assumes "iv \<noteq> 0"
  shows "\<exists>w'. draw_lines fl n ls h iv tt ev w =
      Inr (map (render_line fl h iv tt ev w)
             (filter (\<lambda>p. on_screen h w (fst p)) (zip [n..<n + length ls] ls)), w')"
proof (induction ls arbitrary: n w)
  case Nil
  then show ?case by simp
next
  case (Cons line rest)
  have "[n..<n + length (line # rest)] = n # [Suc n..<Suc n + length rest]"
    by (subst upt_conv_Cons) simp_all
  then have zip: "zip [n..<n + length (line # rest)] (line # rest) =
      (n, line) # zip [Suc n..<Suc n + length rest] rest"
    by simp
  show ?case
  proof (cases "on_screen h w n")
    case False
    then have "draw_lines fl n (line # rest) h iv tt ev w = draw_lines fl (Suc n) rest h iv tt ev w"
      by (simp add: on_screen_def Let_def)
    then show ?thesis
      using Cons.IH [of "Suc n" w] False unfolding zip by simp
  next
    case True
    let ?w1 = "w\<lparr>floats := (floats w)(tt := snd (dd_get 0 (floats w tt) n))\<rparr>"
    let ?w2 = "?w1\<lparr>ints := (ints ?w1)(ev := snd (dd_get 0 (ints ?w1 ev) n))\<rparr>"
    have same: "render_line fl h iv tt ev ?w2 = render_line fl h iv tt ev w"
      "on_screen h ?w2 = on_screen h w"
      by (rule render_line_cong; simp)+
    obtain w' where rest: "draw_lines fl (Suc n) rest h iv tt ev ?w2 =
        Inr (map (render_line fl h iv tt ev w)
               (filter (\<lambda>p. on_screen h w (fst p)) (zip [Suc n..<Suc n + length rest] rest)), w')"
      using Cons.IH [of "Suc n" ?w2] unfolding same by blast
    have "draw_lines fl n (line # rest) h iv tt ev w =
        Inr (render_line fl h iv tt ev w (n, line) #
             map (render_line fl h iv tt ev w)
               (filter (\<lambda>p. on_screen h w (fst p)) (zip [Suc n..<Suc n + length rest] rest)), w')"
      using True assms rest
      by (simp add: on_screen_def Let_def split_beta render_line_def)
    then show ?thesis
      using True unfolding zip by simp
  qed
qed

subsection \<open>The frequency field\<close>

lemma freq_text_bands:
  "(fr = 0 \<longrightarrow> freq_text fl fr = Blank) \<and>
   (fr \<noteq> 0 \<and> fr < 1000 \<longrightarrow> freq_text fl fr = Fixed 5 1 fr ''Hz'') \<and>
   (1000 \<le> fr \<and> fr < 1000000 \<longrightarrow> freq_text fl fr = Fixed 5 1 (fdiv fl fr 1000) ''k'') \<and>
   (1000000 \<le> fr \<longrightarrow> freq_text fl fr = Fixed 5 1 (fdiv fl fr 1000000) ''M'')"
  by (simp add: freq_text_def)

lemma draw_thread_rows:
  assumes "data (rep w) = (iv, tt, ev)" and "iv \<noteq> 0"
  shows "\<exists>w'. draw_thread fl h w =
      Inr (map (render_line fl h iv tt ev w)
             (filter (\<lambda>p. on_screen h w (fst p))
                (zip [1..<1 + length (lines (rep w))] (lines (rep w)))), w')"
proof -
  let ?w0 = "w\<lparr>rep := (rep w)\<lparr>height := h\<rparr>\<rparr>"
  have same: "render_line fl h iv tt ev ?w0 = render_line fl h iv tt ev w"
    "on_screen h ?w0 = on_screen h w"
    by (simp_all add: render_line_def on_screen_def fun_eq_iff)
  obtain w' where "draw_lines fl 1 (lines (rep w)) h iv tt ev ?w0 =
      Inr (map (render_line fl h iv tt ev w)
             (filter (\<lambda>p. on_screen h w (fst p))
                (zip [1..<1 + length (lines (rep w))] (lines (rep w)))), w')"
    using draw_lines_rows [OF assms(2), of fl 1 "lines (rep w)" h tt ev ?w0] unfolding same by auto
  then show ?thesis
    using assms(1) by (simp add: draw_thread_def Let_def)
qed

text \<open>
  Claim C8. When the published interval is not zero, a redraw returns normally with
  one row for every line \<open>L\<close> on the screen (\<open>0 < L - scroll < h\<close>), in order.
  For the row of line \<open>L\<close> let \<open>fr\<close> be the quotient the program computes, of
  the count of \<open>L\<close> in the published dictionary (zero when missing) by the
  interval, in the machine's arithmetic \<open>fl\<close>. The frequency field is blank when
  \<open>fr = 0\<close>, \<open>fr\<close> formatted with the suffix \<^verbatim>\<open>Hz\<close> when \<open>fr\<close> is not zero
  and below 1000, the machine's \<open>fr / 1000\<close> with the suffix \<^verbatim>\<open>k\<close> when
  \<open>1000 \<le> fr < 1000000\<close> (so at exactly 1000), and the machine's
  \<open>fr / 1000000\<close> with the suffix \<^verbatim>\<open>M\<close> otherwise. This holds for every float
  arithmetic, rounding included.
\<close>

theorem draw_thread_frequency_bands:
  assumes "data (rep w) = (interval, total_time, evals)" and "interval \<noteq> 0"
  shows "\<exists>rows w'. draw_thread fl h w = Inr (rows, w') \<and>
     map row_y rows =
       map (\<lambda>L. int L - scroll (rep w))
         (filter (\<lambda>L. 0 < int L - scroll (rep w) \<and> int L - scroll (rep w) < h)
            [1..<1 + length (lines (rep w))]) \<and>
     (\<forall>r \<in> set rows.
        let fr = fdiv fl (real_of_int (lookup0 (ints w evals) (nat (row_y r + scroll (rep w)))))
                   interval
        in (fr = 0 \<longrightarrow> row_freq r = Blank) \<and>
           (fr \<noteq> 0 \<and> fr < 1000 \<longrightarrow> row_freq r = Fixed 5 1 fr ''Hz'') \<and>
           (1000 \<le> fr \<and> fr < 1000000 \<longrightarrow> row_freq r = Fixed 5 1 (fdiv fl fr 1000) ''k'') \<and>
           (1000000 \<le> fr \<longrightarrow> row_freq r = Fixed 5 1 (fdiv fl fr 1000000) ''M''))"
proof -
  let ?ps = "filter (\<lambda>p. on_screen h w (fst p))
                (zip [1..<1 + length (lines (rep w))] (lines (rep w)))"
  let ?rows = "map (render_line fl h interval total_time evals w) ?ps"
  obtain w' where draw: "draw_thread fl h w = Inr (?rows, w')"
    using draw_thread_rows [OF assms] by blast
  have "map fst ?ps = filter (on_screen h w) (map fst (zip [1..<1 + length (lines (rep w))] (lines (rep w))))"
    by (simp add: filter_map comp_def)
  then have fst_ps: "map fst ?ps = filter (on_screen h w) [1..<1 + length (lines (rep w))]"
    by simp
  have "map row_y ?rows = map (\<lambda>L. int L - scroll (rep w)) (map fst ?ps)"
    by (simp add: render_line_def comp_def)
  then have ys: "map row_y ?rows =
       map (\<lambda>L. int L - scroll (rep w))
         (filter (\<lambda>L. 0 < int L - scroll (rep w) \<and> int L - scroll (rep w) < h)
            [1..<1 + length (lines (rep w))])"
    unfolding fst_ps by (simp add: on_screen_def [abs_def])
  have bands: "let fr = fdiv fl (real_of_int (lookup0 (ints w evals) (nat (row_y r + scroll (rep w)))))
                   interval
        in (fr = 0 \<longrightarrow> row_freq r = Blank) \<and>
           (fr \<noteq> 0 \<and> fr < 1000 \<longrightarrow> row_freq r = Fixed 5 1 fr ''Hz'') \<and>
           (1000 \<le> fr \<and> fr < 1000000 \<longrightarrow> row_freq r = Fixed 5 1 (fdiv fl fr 1000) ''k'') \<and>
           (1000000 \<le> fr \<longrightarrow> row_freq r = Fixed 5 1 (fdiv fl fr 1000000) ''M'')"
    if "r \<in> set ?rows" for r
  proof -
    from that obtain p where r: "r = render_line fl h interval total_time evals w p"
      by auto
    have "nat (row_y r + scroll (rep w)) = fst p"
      unfolding r by (simp add: render_line_def)
    moreover have "row_freq r =
        freq_text fl (fdiv fl (real_of_int (lookup0 (ints w evals) (fst p))) interval)"
      unfolding r by (simp add: render_line_def)
    ultimately show ?thesis
      using freq_text_bands [of "fdiv fl (real_of_int (lookup0 (ints w evals) (fst p))) interval" fl]
      by (simp add: Let_def)
  qed
  show ?thesis
    using draw ys bands by blast
qed

subsection \<open>The published interval is never zero\<close>

text \<open>
  The first interval is 1 and \<^verbatim>\<open>line_post\<close> publishes only intervals greater
  than 1, so in a run the division in \<^verbatim>\<open>draw_thread\<close> never raises.
\<close>

lemma interval_step:
  assumes "1 \<le> fst (data (rep w))"
  shows "1 \<le> fst (data (rep (world_after (step fl e w))))"
proof (cases e)
  case (Call_line_post l now now')
  show ?thesis
  proof (cases "begin_time (prof w) l")
    case None
    then show ?thesis
      using assms unfolding Call_line_post by (simp add: world_after_line_post)
  next
    case (Some b)
    then show ?thesis
      using assms unfolding Call_line_post
      by (simp add: world_after_line_post report_rep)
  qed
next
  case (Redraw h)
  show ?thesis
    unfolding Redraw step_Redraw using assms draw_thread_frame [of fl h w] by simp
qed (use assms in \<open>simp_all add: world_after_def\<close>)

lemma interval_run:
  "1 \<le> fst (data (rep w)) \<Longrightarrow> 1 \<le> fst (data (rep (run fl es w)))"
  by (induction es arbitrary: w) (simp_all add: interval_step)

lemma interval_reachable: "1 \<le> fst (data (rep (run fl es (init_world ls t0))))"
  by (rule interval_run) (simp add: init_world_def clear_def Let_def)

lemma draw_thread_returns:
  "\<exists>rows w'. draw_thread fl h (run fl es (init_world ls t0)) = Inr (rows, w')"
proof -
  let ?w = "run fl es (init_world ls t0)"
  obtain iv tt ev where d: "data (rep ?w) = (iv, tt, ev)"
    by (cases "data (rep ?w)") auto
  with interval_reachable [of fl es ls t0] have "iv \<noteq> 0"
    by simp
  with draw_thread_rows [OF d] show ?thesis
    by blast
qed

subsection \<open>The published snapshot\<close>

text \<open>
  Claim C7, as amended. Let \<open>a\<close> and \<open>b\<close> be the two dictionaries published at
  a reachable state. Whatever happens afterwards (hook calls, flushes, keys,
  redraws), every line reads the same value from them as at that state (a missing
  line reads zero) and no entry is removed or changed: the only change is that
  entries of value zero may have been added. When no redraw happens afterwards, the
  dictionaries are exactly the same.
\<close>

theorem published_snapshot_zero_extended:
  "let w1 = run fl es0 (init_world ls t0);
       a = fst (snd (data (rep w1))); b = snd (snd (data (rep w1)));
       w2 = run fl es w1
   in (\<forall>l. lookup0 (floats w2 a) l = lookup0 (floats w1 a) l) \<and>
      (\<forall>l. lookup0 (ints w2 b) l = lookup0 (ints w1 b) l) \<and>
      floats w1 a \<subseteq>\<^sub>m floats w2 a \<and> ints w1 b \<subseteq>\<^sub>m ints w2 b \<and>
      ((\<forall>h. Redraw h \<notin> set es) \<longrightarrow> floats w2 a = floats w1 a \<and> ints w2 b = ints w1 b)"
proof -
  define w1 where "w1 = run fl es0 (init_world ls t0)"
  define a where "a = fst (snd (data (rep w1)))"
  define b where "b = snd (snd (data (rep w1)))"
  have "refs_ok w1"
    unfolding w1_def by (intro refs_ok_run refs_ok_init)
  then have "a \<noteq> line_time (prof w1)" "a < fresh w1" "b \<noteq> line_evals (prof w1)" "b < fresh w1"
    by (simp_all add: refs_ok_def a_def b_def)
  from published_run [OF this, of fl es]
  have ext: "zero_ext (floats w1 a) (floats (run fl es w1) a)"
    "zero_ext (ints w1 b) (ints (run fl es w1) b)"
    and same: "(\<forall>h. Redraw h \<notin> set es) \<longrightarrow>
      floats (run fl es w1) a = floats w1 a \<and> ints (run fl es w1) b = ints w1 b"
    by blast+
  have "\<forall>l. lookup0 (floats (run fl es w1) a) l = lookup0 (floats w1 a) l"
    using ext(1) by (intro allI zero_ext_lookup0)
  moreover have "\<forall>l. lookup0 (ints (run fl es w1) b) l = lookup0 (ints w1 b) l"
    using ext(2) by (intro allI zero_ext_lookup0)
  moreover have "floats w1 a \<subseteq>\<^sub>m floats (run fl es w1) a" "ints w1 b \<subseteq>\<^sub>m ints (run fl es w1) b"
    using ext by (simp_all add: zero_ext_map_le)
  ultimately show ?thesis
    using same unfolding Let_def w1_def [symmetric] a_def [symmetric] b_def [symmetric] by blast
qed

subsection \<open>Concrete runs\<close>

text \<open>The definitions to unfold when a concrete run is evaluated, and three states.\<close>

lemmas world_eval =
  init_world_def clear_def line_pre_def line_post_def exit_pre_def report_def
  Reporter_report_def invalidate_def input_thread_def handle_key_def clamp_scroll_def
  draw_thread_def
  world_after_def dd_get_def lookup0_def Let_def ord_def on_screen_def real_ops_def

lemma flushed_example:
  "run fl [Call_line_pre 1 0, Call_line_post 1 2 2] (init_world [''x = 1'', ''y = 2''] 0) =
     \<lparr>prof = \<lparr>begin_time = [1 \<mapsto> 0], line_time = 4, line_evals = 5, last_report = 2\<rparr>,
      rep = \<lparr>lines = [''x = 1'', ''y = 2''], data = (2, 2, 3), dirty = True, scroll = 0,
             height = 10\<rparr>,
      floats = (\<lambda>a. Map.empty)(2 := [1 \<mapsto> 2], 4 := Map.empty),
      ints = (\<lambda>a. Map.empty)(3 := [1 \<mapsto> 1], 5 := Map.empty),
      fresh = 6\<rparr>"
  by (simp add: world_eval fun_eq_iff)

text \<open>
  Claim C7, as stated, fails. The program \<^verbatim>\<open>x = 1\<close>, \<^verbatim>\<open>y = 2\<close>: line 1 is opened
  at time 0 and closed at time 2, which flushes and publishes the dictionaries at
  the addresses 2 and 3, with the entry \<open>1 \<mapsto> 2\<close> in the first. A redraw on a
  terminal of height 10 then reads \<^verbatim>\<open>total_time[2]\<close>, which stores \<open>2 \<mapsto> 0\<close> in
  the published dictionary.
\<close>

theorem published_snapshot_changed_by_redraw:
  "data (rep (run real_ops [Call_line_pre 1 0, Call_line_post 1 2 2]
                (init_world [''x = 1'', ''y = 2''] 0))) = (2, 2, 3) \<and>
   floats (run real_ops [Redraw 10]
             (run real_ops [Call_line_pre 1 0, Call_line_post 1 2 2]
                (init_world [''x = 1'', ''y = 2''] 0))) 2 \<noteq>
   floats (run real_ops [Call_line_pre 1 0, Call_line_post 1 2 2]
             (init_world [''x = 1'', ''y = 2''] 0)) 2"
proof -
  let ?w1 = "run real_ops [Call_line_pre 1 0, Call_line_post 1 2 2] (init_world [''x = 1'', ''y = 2''] 0)"
  have "floats ?w1 2 2 = None"
    unfolding flushed_example by simp
  moreover have "floats (run real_ops [Redraw 10] ?w1) 2 2 = Some 0"
    unfolding flushed_example by (simp add: world_eval)
  ultimately have "floats (run real_ops [Redraw 10] ?w1) 2 \<noteq> floats ?w1 2"
    by (metis option.distinct(1))
  moreover have "data (rep ?w1) = (2, 2, 3)"
    unfolding flushed_example by simp
  ultimately show ?thesis by simp
qed

theorem published_snapshot_zero_extended_witness:
  "floats (run real_ops [Call_line_pre 1 3, Call_line_post 1 4 4, Getch 106]
             (run real_ops [Call_line_pre 1 0, Call_line_post 1 2 2]
                (init_world [''x = 1'', ''y = 2''] 0))) 2 = [1 \<mapsto> 2] \<and>
   ints (run real_ops [Call_line_pre 1 3, Call_line_post 1 4 4, Getch 106]
             (run real_ops [Call_line_pre 1 0, Call_line_post 1 2 2]
                (init_world [''x = 1'', ''y = 2''] 0))) 3 = [1 \<mapsto> 1]"
proof -
  have no_redraw: "\<forall>h. Redraw h \<notin> set [Call_line_pre 1 3, Call_line_post 1 4 4, Getch 106]"
    by simp
  show ?thesis
    using published_snapshot_zero_extended
      [of real_ops "[Call_line_pre 1 0, Call_line_post 1 2 2]" "[''x = 1'', ''y = 2'']" 0
          "[Call_line_pre 1 3, Call_line_post 1 4 4, Getch 106]"]
      no_redraw
    unfolding Let_def flushed_example by simp
qed

lemma clamp_scroll_frame [simp]:
  "lines (clamp_scroll r) = lines r" "height (clamp_scroll r) = height r"
  "data (clamp_scroll r) = data r"
  by (simp_all add: clamp_scroll_def Let_def)

lemma handle_key_frame [simp]:
  "lines (handle_key c r) = lines r" "height (handle_key c r) = height r"
  "data (handle_key c r) = data r"
  by (simp_all add: handle_key_def Let_def)

lemma clamp_scroll_bounds:
  "scroll (clamp_scroll r) \<le> int (length (lines r)) - height r + 2"
  "height r \<le> int (length (lines r)) + 2 \<Longrightarrow> 0 \<le> scroll (clamp_scroll r)"
  by (simp_all add: clamp_scroll_def Let_def)

lemma input_thread_scroll_bounds:
  "scroll (rep (input_thread c w)) \<le> int (length (lines (rep w))) - height (rep w) + 2"
  "height (rep w) \<le> int (length (lines (rep w))) + 2 \<Longrightarrow> 0 \<le> scroll (rep (input_thread c w))"
  using clamp_scroll_bounds [of "handle_key c (rep w)"]
  by (simp_all add: input_thread_def invalidate_def)

lemma redrawn_example:
  "run fl [Redraw 24] (init_world [[]] 0) =
     \<lparr>prof = \<lparr>begin_time = Map.empty, line_time = 2, line_evals = 3, last_report = 0\<rparr>,
      rep = \<lparr>lines = [[]], data = (1, 0, 1), dirty = False, scroll = 0, height = 24\<rparr>,
      floats = (\<lambda>a. Map.empty)(0 := [1 \<mapsto> 0]),
      ints = (\<lambda>a. Map.empty)(1 := [1 \<mapsto> 0]),
      fresh = 4\<rparr>"
  by (simp add: init_world_def clear_def draw_thread_def world_after_def dd_get_def Let_def
      fun_eq_iff)

text \<open>
  Claim C6 fails on the code. The profiler is started without an argument, so the
  source text is one newline and \<^verbatim>\<open>self.lines\<close> is \<^verbatim>\<open>['']\<close>. After a redraw on a
  terminal of height 24 the key \<^verbatim>\<open>j\<close> leaves the scroll offset at \<open>- 21\<close>: the
  upper bound \<open>1 - 24 + 2\<close> is negative and is applied after the lower bound.
  The two lemmas before the theorem give what does hold: the upper bound always,
  the lower bound when the height is at most the number of lines plus 2.
\<close>

theorem input_thread_scroll_negative:
  "scroll (rep (run real_ops [Getch (ord CHR ''j'')] (run real_ops [Redraw 24] (init_world [[]] 0)))) = - 21"
  unfolding redrawn_example
  by (simp add: input_thread_def handle_key_def clamp_scroll_def invalidate_def world_after_def
      Let_def)

lemma opened_example:
  "line_pre 1 0 (init_world [''x = 1''] 0) =
     \<lparr>prof = \<lparr>begin_time = [1 \<mapsto> 0], line_time = 2, line_evals = 3, last_report = 0\<rparr>,
      rep = \<lparr>lines = [''x = 1''], data = (1, 0, 1), dirty = False, scroll = 0, height = 10\<rparr>,
      floats = (\<lambda>a. Map.empty), ints = (\<lambda>a. Map.empty), fresh = 4\<rparr>"
  by (simp add: init_world_def clear_def line_pre_def Let_def fun_eq_iff)

theorem line_post_accumulates_witness:
  "begin_time (prof (line_pre 1 0 (init_world [''x = 1''] 0))) 1 = Some 0 \<and>
   (\<exists>w'. line_post 1 2 2 (line_pre 1 0 (init_world [''x = 1''] 0)) = Inr w' \<and>
         data (rep w') = (2, 2, 3) \<and> floats w' 2 1 = Some 2 \<and> ints w' 3 1 = Some 1 \<and>
         floats w' (line_time (prof w')) = Map.empty) \<and>
   (\<exists>w'. line_post 1 (1 / 2) (1 / 2) (line_pre 1 0 (init_world [''x = 1''] 0)) = Inr w' \<and>
         data (rep w') = (1, 0, 1) \<and> line_time (prof w') = 2 \<and>
         floats w' 2 1 = Some (1 / 2) \<and> ints w' 3 1 = Some 1)"
proof -
  let ?W = "line_pre 1 0 (init_world [''x = 1''] 0)"
  have h: "begin_time (prof ?W) 1 = Some 0"
    unfolding opened_example by simp
  from line_post_accumulates [OF h, of 2 2] obtain w1 where w1:
    "prof w1 = prof ?W" "rep w1 = rep ?W" "fresh w1 = fresh ?W"
    "floats w1 = (floats ?W)(line_time (prof ?W) :=
       (floats ?W (line_time (prof ?W)))(1 \<mapsto> lookup0 (floats ?W (line_time (prof ?W))) 1 + (2 - 0)))"
    "ints w1 = (ints ?W)(line_evals (prof ?W) :=
       (ints ?W (line_evals (prof ?W)))(1 \<mapsto> lookup0 (ints ?W (line_evals (prof ?W))) 1 + 1))"
    "line_post 1 2 2 ?W =
       Inr (if 1 < 2 - last_report (prof ?W)
            then report (Some (2 - last_report (prof ?W))) 2 2 w1 else w1)"
    by blast
  have flush: "\<exists>w'. line_post 1 2 2 ?W = Inr w' \<and>
         data (rep w') = (2, 2, 3) \<and> floats w' 2 1 = Some 2 \<and> ints w' 3 1 = Some 1 \<and>
         floats w' (line_time (prof w')) = Map.empty"
    using w1 unfolding opened_example
    by (simp add: report_rep report_prof report_store lookup0_def)
  from line_post_accumulates [OF h, of "1 / 2" "1 / 2"] obtain w2 where w2:
    "prof w2 = prof ?W" "rep w2 = rep ?W" "fresh w2 = fresh ?W"
    "floats w2 = (floats ?W)(line_time (prof ?W) :=
       (floats ?W (line_time (prof ?W)))(1 \<mapsto> lookup0 (floats ?W (line_time (prof ?W))) 1 + (1 / 2 - 0)))"
    "ints w2 = (ints ?W)(line_evals (prof ?W) :=
       (ints ?W (line_evals (prof ?W)))(1 \<mapsto> lookup0 (ints ?W (line_evals (prof ?W))) 1 + 1))"
    "line_post 1 (1 / 2) (1 / 2) ?W =
       Inr (if 1 < 1 / 2 - last_report (prof ?W)
            then report (Some (1 / 2 - last_report (prof ?W))) (1 / 2) (1 / 2) w2 else w2)"
    by blast
  have keep: "\<exists>w'. line_post 1 (1 / 2) (1 / 2) ?W = Inr w' \<and>
         data (rep w') = (1, 0, 1) \<and> line_time (prof w') = 2 \<and>
         floats w' 2 1 = Some (1 / 2) \<and> ints w' 3 1 = Some 1"
    using w2 unfolding opened_example
    by (simp add: lookup0_def)
  from h flush keep show ?thesis by blast
qed

theorem line_pre_overwrites_witness:
  "begin_time (prof (line_pre 1 0 (init_world [''x = 1''] 0))) 1 = Some 0 \<and>
   (\<exists>w'. step real_ops (Call_line_pre 1 5) (line_pre 1 0 (init_world [''x = 1''] 0)) = Inr w' \<and>
         begin_time (prof w') 1 = Some 5)"
proof -
  let ?W = "line_pre 1 0 (init_world [''x = 1''] 0)"
  have h: "begin_time (prof ?W) 1 = Some 0"
    unfolding opened_example by simp
  from line_pre_overwrites [OF h, of real_ops 5] have
    "\<exists>w'. step real_ops (Call_line_pre 1 5) ?W = Inr w' \<and> begin_time (prof w') 1 = Some 5"
    by blast
  with h show ?thesis by blast
qed

theorem report_keeps_begin_time_witness:
  "begin_time (prof (line_pre 1 0 (init_world [''x = 1''] 0))) 1 = Some 0 \<and>
   begin_time (prof (report None 2 2 (line_pre 1 0 (init_world [''x = 1''] 0)))) 1 = Some 0 \<and>
   (\<exists>w'. line_post 1 3 3 (report None 2 2 (line_pre 1 0 (init_world [''x = 1''] 0))) = Inr w' \<and>
         floats w' (line_time (prof (report None 2 2 (line_pre 1 0 (init_world [''x = 1''] 0))))) 1 =
           Some 3)"
proof -
  let ?W = "line_pre 1 0 (init_world [''x = 1''] 0)"
  have h: "begin_time (prof ?W) 1 = Some 0"
    unfolding opened_example by simp
  note t = report_keeps_begin_time [of None 2 2 ?W 1 0 3 3]
  from t have "begin_time (prof (report None 2 2 ?W)) = begin_time (prof ?W)"
    by blast
  with h have "begin_time (prof (report None 2 2 ?W)) 1 = Some 0"
    by simp
  moreover from t h have "\<exists>w'. line_post 1 3 3 (report None 2 2 ?W) = Inr w' \<and>
      floats w' (line_time (prof (report None 2 2 ?W))) 1 = Some (0 + (3 - 0))"
    by blast
  ultimately show ?thesis
    using h by simp
qed

lemma accumulated_example:
  "run fl [Call_line_pre 1 0, Call_line_post 1 (1 / 2) (1 / 2)] (init_world [''x = 1''] 0) =
     \<lparr>prof = \<lparr>begin_time = [1 \<mapsto> 0], line_time = 2, line_evals = 3, last_report = 0\<rparr>,
      rep = \<lparr>lines = [''x = 1''], data = (1, 0, 1), dirty = False, scroll = 0, height = 10\<rparr>,
      floats = (\<lambda>a. Map.empty)(2 := [1 \<mapsto> 1 / 2]),
      ints = (\<lambda>a. Map.empty)(3 := [1 \<mapsto> 1]),
      fresh = 4\<rparr>"
  by (simp add: world_eval fun_eq_iff)

theorem report_publishes_and_resets_witness:
  "clock_ok 0 [Call_line_pre 1 0, Call_line_post 1 (1 / 2) (1 / 2)] \<and>
   data (rep (report None 3 3
      (run real_ops [Call_line_pre 1 0, Call_line_post 1 (1 / 2) (1 / 2)] (init_world [''x = 1''] 0)))) =
     (3, 2, 3) \<and>
   floats (report None 3 3
      (run real_ops [Call_line_pre 1 0, Call_line_post 1 (1 / 2) (1 / 2)] (init_world [''x = 1''] 0))) 2 =
     [1 \<mapsto> 1 / 2] \<and>
   floats (report None 3 3
      (run real_ops [Call_line_pre 1 0, Call_line_post 1 (1 / 2) (1 / 2)] (init_world [''x = 1''] 0))) 4 =
     Map.empty \<and>
   last_report (prof (report None 3 3
      (run real_ops [Call_line_pre 1 0, Call_line_post 1 (1 / 2) (1 / 2)] (init_world [''x = 1''] 0)))) = 3"
proof -
  have ok: "clock_ok 0 [Call_line_pre 1 0, Call_line_post 1 (1 / 2) (1 / 2)]"
    by simp
  show ?thesis
    using report_publishes_and_resets [OF ok, of real_ops "[''x = 1'']" None 3 3] ok
    unfolding Let_def accumulated_example
    by (simp add: report_prof)
qed

theorem line_post_needs_line_pre_witness:
  "(\<exists>w'. line_post 1 3 3
           (run real_ops [Call_line_pre 1 0, Call_line_post 1 2 2] (init_world [''x = 1'', ''y = 2''] 0)) =
         Inr w') \<and>
   (\<exists>w'. line_post 2 3 3
           (run real_ops [Call_line_pre 1 0, Call_line_post 1 2 2] (init_world [''x = 1'', ''y = 2''] 0)) =
         Inl (KeyError, w'))"
proof -
  let ?es = "[Call_line_pre 1 0, Call_line_post 1 2 2]"
  have "\<exists>t. Call_line_pre 1 t \<in> set ?es"
    by simp
  with line_post_needs_line_pre [of 1 ?es 3 3 real_ops "[''x = 1'', ''y = 2'']" 0]
  have a: "\<exists>w'. line_post 1 3 3 (run real_ops ?es (init_world [''x = 1'', ''y = 2''] 0)) = Inr w'"
    by blast
  have "\<not> (\<exists>t. Call_line_pre 2 t \<in> set ?es)"
    by simp
  with line_post_needs_line_pre [of 2 ?es 3 3 real_ops "[''x = 1'', ''y = 2'']" 0]
  have b: "\<exists>w'. line_post 2 3 3 (run real_ops ?es (init_world [''x = 1'', ''y = 2''] 0)) = Inl (KeyError, w')"
    by blast
  from a b show ?thesis by blast
qed

theorem draw_thread_frequency_bands_witness:
  "\<exists>rows w'.
     draw_thread real_ops 24
       \<lparr>prof = \<lparr>begin_time = [1 \<mapsto> 0], line_time = 4, line_evals = 5, last_report = 2\<rparr>,
        rep = \<lparr>lines = [''x = 1''], data = (2, 2, 3), dirty = True, scroll = 0, height = 10\<rparr>,
        floats = (\<lambda>a. Map.empty)(2 := [1 \<mapsto> 1]),
        ints = (\<lambda>a. Map.empty)(3 := [1 \<mapsto> 2000]),
        fresh = 6\<rparr> = Inr (rows, w') \<and>
     map row_freq rows = [Fixed 5 1 1 ''k'']"
proof -
  let ?W = "\<lparr>prof = \<lparr>begin_time = [1 \<mapsto> 0], line_time = 4, line_evals = 5, last_report = 2\<rparr>,
        rep = \<lparr>lines = [''x = 1''], data = (2, 2, 3), dirty = True, scroll = 0, height = 10\<rparr>,
        floats = (\<lambda>a. Map.empty)(2 := [1 \<mapsto> 1::real]),
        ints = (\<lambda>a. Map.empty)(3 := [1 \<mapsto> 2000::int]),
        fresh = 6\<rparr>"
  let ?fr = "\<lambda>r. fdiv real_ops
      (real_of_int (lookup0 (ints ?W 3) (nat (row_y r + scroll (rep ?W))))) 2"
  have d: "data (rep ?W) = (2, 2, 3)" and nz: "(2::real) \<noteq> 0"
    by simp_all
  from draw_thread_frequency_bands [OF d nz, of real_ops 24] obtain rows w' where
    draw: "draw_thread real_ops 24 ?W = Inr (rows, w')"
    and ys: "map row_y rows = [1]"
    and bands: "\<forall>r \<in> set rows.
        1000 \<le> ?fr r \<and> ?fr r < 1000000 \<longrightarrow>
        row_freq r = Fixed 5 1 (fdiv real_ops (?fr r) 1000) ''k''"
    by (auto simp add: Let_def)
  from ys obtain r where rows: "rows = [r]" and y: "row_y r = 1"
    by (cases rows) auto
  have "?fr r = 1000"
    using y by (simp add: lookup0_def real_ops_def)
  then have "row_freq r = Fixed 5 1 1 ''k''"
    using bands rows by (simp add: real_ops_def)
  with draw rows show ?thesis by simp
qed

end
